theory Spec2Isabelle
  imports Complex_Main "HOL-Library.Sublist" "HOL-Library.Multiset"
begin

section \<open>Values and records of the orchestration core\<close>

text \<open>
  The engine is \<^verbatim>\<open>class CoreEngine\<close> together with \<^verbatim>\<open>class MetaReflectionModule\<close>,
  \<^verbatim>\<open>validateTask\<close> and \<^verbatim>\<open>validateAgent\<close>.  JavaScript numbers are modelled as exact
  reals: the rounding of IEEE doubles is not represented, and \<^verbatim>\<open>NaN\<close> appears only where the
  code can receive it from outside without a check, in the fields of a dispatch result.
  Task and agent records carry the fields the engine reads or writes; timestamps and log
  lines are left out.  Task identifiers are UUIDs in the source, so a reference to a queued
  task object is modelled by its identifier and the fresh identifier is an argument of the
  operation that draws it.
\<close>

datatype status = Pending | Processing | WaitingForSubtasks | Completed | Failed

datatype agent_status = Idle | Busy

datatype strategy = SPLIT | COLLABORATE | REROUTE

text \<open>A numeric field as it arrives from the dispatcher: absent, null, NaN or a number.\<close>

datatype jsnum = JUndefined | JNull | JNaN | JNum real

record domain_perf =
  d_tasksCompleted :: nat
  d_successRate :: real
  d_averageImpact :: real
  d_uncertainty :: real
  d_confidence :: real

record performance =
  tasksCompleted :: nat
  successRate :: real
  averageImpact :: real
  domains :: "(string \<times> domain_perf) list"

record agent =
  agent_id :: string
  domainLabels :: "string list"
  skillScores :: "(string \<times> real) list"
  apiEndpoint :: string
  performanceData :: performance
  agent_status :: agent_status

record task =
  task_id :: string
  description :: string
  domainLabel :: string
  complexityScore :: real
  priority :: "real option"
  dependencies :: "string list"
  subtasks :: "string list"
  parentTaskId :: "string option"
  interferedBy :: "string list option"
  status :: status
  assignedTo :: "string option"
  retryCount :: nat
  failedAgents :: "string list"
  predictedImpact :: real
  predictedSuccess :: "real option"
  isCollaborative :: bool
  suggestedAction :: "string option"

text \<open>The object a dispatch resolves with, and the three ways a dispatch can end.\<close>

record dispatch_result =
  resultData :: "string option"
  confidenceScore :: jsnum
  actualImpact :: jsnum
  executionTime :: jsnum

datatype dispatch_outcome =
    Rejected
  | ResolvedNullish
  | Resolved dispatch_result

text \<open>A record of \<^verbatim>\<open>taskOutputs\<close>.\<close>

record task_output =
  o_taskId :: string
  o_agentId :: string
  o_resultData :: "string option"
  o_confidenceScore :: jsnum
  o_predictedImpact :: real
  o_actualImpact :: real
  o_executionTime :: jsnum

text \<open>
  One entry of \<^verbatim>\<open>collaborationSpace[contextId].sharedResults\<close>: the sharing task, the agent
  and the payload already rendered by \<^verbatim>\<open>JSON.stringify\<close>.
\<close>

type_synonym shared_result = "string \<times> string \<times> string"

record engine =
  agents :: "agent list"
  taskQueue :: "task list"
  taskOutputs :: "string \<rightharpoonup> task_output"
  collaborationSpace :: "string \<rightharpoonup> shared_result list"

subsection \<open>JavaScript idioms\<close>

text \<open>\<^verbatim>\<open>x || y\<close> on a number: zero is falsy.\<close>

definition or_num :: "real \<Rightarrow> real \<Rightarrow> real" where
  "or_num x y = (if x = 0 then y else x)"

text \<open>\<^verbatim>\<open>x || y\<close> on a possibly absent number.\<close>

definition or_opt :: "real option \<Rightarrow> real \<Rightarrow> real" where
  "or_opt x y = (case x of None \<Rightarrow> y | Some v \<Rightarrow> or_num v y)"

text \<open>\<^verbatim>\<open>v || 0\<close> on a dispatcher field: undefined, null, NaN and 0 all give 0.\<close>

definition or_zero :: "jsnum \<Rightarrow> real" where
  "or_zero v = (case v of JNum x \<Rightarrow> x | _ \<Rightarrow> 0)"

text \<open>\<^verbatim>\<open>v < c\<close> for a number \<open>c\<close>: null converts to 0, undefined and NaN compare false.\<close>

definition js_lt :: "jsnum \<Rightarrow> real \<Rightarrow> bool" where
  "js_lt v c = (case v of JNum x \<Rightarrow> x < c | JNull \<Rightarrow> 0 < c | _ \<Rightarrow> False)"

text \<open>\<^verbatim>\<open>acc + v\<close> with a numeric accumulator; \<open>None\<close> is NaN.\<close>

definition js_add :: "real option \<Rightarrow> jsnum \<Rightarrow> real option" where
  "js_add acc v =
     (case acc of None \<Rightarrow> None
      | Some a \<Rightarrow> (case v of JNum x \<Rightarrow> Some (a + x) | JNull \<Rightarrow> Some a | _ \<Rightarrow> None))"

text \<open>
  \<^verbatim>\<open>parseFloat(x.toFixed(d))\<close>: the nearest multiple of \<open>10\<^sup>-\<^sup>d\<close>, a tie going away
  from zero.
\<close>

definition toFixed :: "nat \<Rightarrow> real \<Rightarrow> real" where
  "toFixed d x =
     (if x < 0 then - (of_int \<lfloor>(- x) * 10 ^ d + 1 / 2\<rfloor> / 10 ^ d)
      else of_int \<lfloor>x * 10 ^ d + 1 / 2\<rfloor> / 10 ^ d)"

text \<open>
  \<^verbatim>\<open>Array.prototype.sort(cmp)\<close>: a stable sort; \<open>cmp a b \<le> 0\<close> keeps \<open>a\<close> before \<open>b\<close>.
\<close>

fun insert_by :: "('a \<Rightarrow> 'a \<Rightarrow> real) \<Rightarrow> 'a \<Rightarrow> 'a list \<Rightarrow> 'a list" where
  "insert_by cmp x [] = [x]"
| "insert_by cmp x (y # ys) = (if cmp x y \<le> 0 then x # y # ys else y # insert_by cmp x ys)"

definition sort_by :: "('a \<Rightarrow> 'a \<Rightarrow> real) \<Rightarrow> 'a list \<Rightarrow> 'a list" where
  "sort_by cmp xs = foldr (insert_by cmp) xs []"

text \<open>\<^verbatim>\<open>taskQueue.find(t => t.id === id)\<close> and \<^verbatim>\<open>this.agents[id]\<close>.\<close>

definition findTask :: "task list \<Rightarrow> string \<Rightarrow> task option" where
  "findTask q i = find (\<lambda>t. task_id t = i) q"

definition findAgent :: "agent list \<Rightarrow> string \<Rightarrow> agent option" where
  "findAgent as i = find (\<lambda>a. agent_id a = i) as"

text \<open>A write through a task reference, or through \<^verbatim>\<open>this.agents[id]\<close>.\<close>

fun updateTask :: "string \<Rightarrow> (task \<Rightarrow> task) \<Rightarrow> task list \<Rightarrow> task list" where
  "updateTask i f [] = []"
| "updateTask i f (t # ts) = (if task_id t = i then f t # ts else t # updateTask i f ts)"

fun updateAgent :: "string \<Rightarrow> (agent \<Rightarrow> agent) \<Rightarrow> agent list \<Rightarrow> agent list" where
  "updateAgent i f [] = []"
| "updateAgent i f (a # as) = (if agent_id a = i then f a # as else a # updateAgent i f as)"

section \<open>Compatibility scorer\<close>






section \<open>Meta-reflection\<close>

text \<open>
  \<^verbatim>\<open>predictSuccess(agent, task)\<close>; the first argument is \<^verbatim>\<open>this.core.taskQueue\<close>.  A domain
  the agent has no record for gets the default record of the source, whose unread fields
  are filled with the values \<^verbatim>\<open>updateAgentMetadata\<close> starts from.
\<close>

definition defaultDomainPerf :: domain_perf where
  "defaultDomainPerf =
     \<lparr>d_tasksCompleted = 0, d_successRate = 0.5, d_averageImpact = 0,
      d_uncertainty = 1, d_confidence = 0.5\<rparr>"

definition predictSuccess :: "task list \<Rightarrow> agent \<Rightarrow> task \<Rightarrow> real" where
  "predictSuccess q a t =
     (let domain = domainLabel t;
          domainPerf = (case map_of (domains (performanceData a)) domain of
                          Some dp \<Rightarrow> dp
                        | None \<Rightarrow> defaultDomainPerf);
          skillScore =
            or_num (or_opt (map_of (skillScores a) domain)
                      (sum_list (map snd (skillScores a)) / 10)) 5 / 10;
          historyScore = d_successRate domainPerf;
          uncertainty = or_num (d_uncertainty domainPerf)
                          (1 / (real (d_tasksCompleted domainPerf) + 1));
          historyWeight = 1 - uncertainty;
          skillWeight = uncertainty;
          prediction = historyScore * historyWeight + skillScore * skillWeight;
          prediction' =
            (case interferedBy t of
               None \<Rightarrow> prediction
             | Some doms \<Rightarrow>
                 (let activeInterferences =
                        filter (\<lambda>u. domainLabel u \<in> set doms
                                     \<and> (status u = Processing \<or> status u = Completed)) q
                  in if length activeInterferences > 0
                     then max 0.1 (prediction - real (length activeInterferences) * 0.15)
                     else prediction))
      in toFixed 4 prediction')"

text \<open>\<^verbatim>\<open>evaluateAssignment(task, excludeIds)\<close>: the agent id (or null) and its prediction.\<close>

definition evaluateAssignment :: "engine \<Rightarrow> task \<Rightarrow> string list \<Rightarrow> string option \<times> real" where
  "evaluateAssignment s t excludeIds =
     (let availableAgents =
            filter (\<lambda>a. agent_status a = Idle \<and> agent_id a \<notin> set excludeIds) (agents s)
      in if availableAgents = [] then (None, 0)
         else
           (let evaluations = map (\<lambda>a. (agent_id a, predictSuccess (taskQueue s) a t)) availableAgents;
                sorted' = sort_by (\<lambda>a b. snd b - snd a) evaluations
            in case sorted' of
                 [] \<Rightarrow> (None, 0)
               | best # _ \<Rightarrow> (Some (fst best), snd best)))"

definition threshold :: real where
  "threshold = 0.65"

definition suggestRemediation :: "engine \<Rightarrow> task \<Rightarrow> strategy" where
  "suggestRemediation s t =
     (if complexityScore t > 6 then SPLIT
      else
        (let otherAgents =
               filter (\<lambda>a. domainLabel t \<in> set (domainLabels a)
                            \<or> or_opt (map_of (skillScores a) (domainLabel t)) 0 > 4) (agents s)
         in if length otherAgents > 1 then COLLABORATE else REROUTE))"

text \<open>
  \<^verbatim>\<open>predictImpact(task)\<close> reads the task's complexity, priority and domain; the loop over
  the agents accumulates the pair (domainImpactSum, domainTaskCount).
\<close>

fun domainTotals :: "string \<Rightarrow> agent list \<Rightarrow> real \<times> real" where
  "domainTotals d [] = (0, 0)"
| "domainTotals d (a # as) =
     (let (domainImpactSum, domainTaskCount) = domainTotals d as
      in case map_of (domains (performanceData a)) d of
           None \<Rightarrow> (domainImpactSum, domainTaskCount)
         | Some dPerf \<Rightarrow>
             if d_tasksCompleted dPerf > 0
             then (domainImpactSum + d_averageImpact dPerf * real (d_tasksCompleted dPerf),
                   domainTaskCount + real (d_tasksCompleted dPerf))
             else (domainImpactSum, domainTaskCount))"

definition predictImpact :: "agent list \<Rightarrow> real \<Rightarrow> real option \<Rightarrow> string \<Rightarrow> real" where
  "predictImpact as complexity prio domain =
     (let baseImpact = or_num complexity 5;
          priorityMultiplier = 1 + or_opt prio 1 / 10;
          (domainImpactSum, domainTaskCount) = domainTotals domain as;
          avgDomainImpact = (if domainTaskCount > 0 then domainImpactSum / domainTaskCount else 5)
      in toFixed 2 (baseImpact * priorityMultiplier * 0.6 + avgDomainImpact * 0.4))"

text \<open>\<^verbatim>\<open>updateAgentMetadata\<close>, on the agent found under the id.\<close>

fun setKey :: "'k \<Rightarrow> 'v \<Rightarrow> ('k \<times> 'v) list \<Rightarrow> ('k \<times> 'v) list" where
  "setKey k v [] = [(k, v)]"
| "setKey k v ((k', v') # kvs) = (if k' = k then (k, v) # kvs else (k', v') # setKey k v kvs)"

definition updateAgentMetadata :: "string \<Rightarrow> bool \<Rightarrow> real \<Rightarrow> agent \<Rightarrow> agent" where
  "updateAgentMetadata domain success impact a =
     (let ds = domains (performanceData a);
          dPerf0 = (case map_of ds domain of
                      Some dp \<Rightarrow> dp
                    | None \<Rightarrow> \<lparr>d_tasksCompleted = 0, d_successRate = 0, d_averageImpact = 0,
                                d_uncertainty = 1, d_confidence = 0.5\<rparr>);
          n = d_tasksCompleted dPerf0 + 1;
          prevSuccesses = d_successRate dPerf0 * (real n - 1);
          rate = (prevSuccesses + (if success then 1 else 0)) / real n;
          avg = (if success then (d_averageImpact dPerf0 * (real n - 1) + impact) / real n
                 else d_averageImpact dPerf0);
          unc = 1 / (real n + 1);
          dPerf = \<lparr>d_tasksCompleted = n, d_successRate = rate, d_averageImpact = avg,
                   d_uncertainty = unc, d_confidence = rate * 0.7 + (1 - unc) * 0.3\<rparr>
      in a\<lparr>performanceData := (performanceData a)\<lparr>domains := setKey domain dPerf ds\<rparr>\<rparr>)"

text \<open>
  \<^verbatim>\<open>updateAgentPerformance(agentId, success, impact, domain)\<close>; both callers have checked
  that the agent exists.
\<close>

definition updatePerformance :: "bool \<Rightarrow> real \<Rightarrow> string \<Rightarrow> agent \<Rightarrow> agent" where
  "updatePerformance success impact domain a =
     (let perf = performanceData a;
          n = tasksCompleted perf + 1;
          previousSuccesses = successRate perf * (real n - 1);
          rate = (previousSuccesses + (if success then 1 else 0)) / real n;
          avg = (if success then (averageImpact perf * (real n - 1) + impact) / real n
                 else averageImpact perf);
          a' = a\<lparr>performanceData := perf\<lparr>tasksCompleted := n, successRate := rate,
                                          averageImpact := avg\<rparr>\<rparr>
      in if domain \<noteq> [] then updateAgentMetadata domain success impact a' else a')"

definition updateAgentPerformance :: "engine \<Rightarrow> string \<Rightarrow> bool \<Rightarrow> real \<Rightarrow> string \<Rightarrow> engine" where
  "updateAgentPerformance s agentId success impact domain =
     s\<lparr>agents := updateAgent agentId (updatePerformance success impact domain) (agents s)\<rparr>"


section \<open>Validation, registration and submission\<close>

text \<open>
  A field of a submitted object: missing, of the wrong JavaScript type, or a value of the
  expected type.  \<^verbatim>\<open>VALID_DOMAINS\<close> is not part of the sources at hand and is a parameter.
\<close>

datatype 'a field = Absent | WrongType | Value 'a

record taskData =
  td_description :: "string field"
  td_domainLabel :: "string field"
  td_complexityScore :: "real field"
  td_priority :: "real field"
  td_dependencies :: "string list option"
  td_parentTaskId :: "string option"
  td_interferedBy :: "string list option"

datatype task_error =
    BadDescription
  | BadDomainLabel
  | UnknownDomain
  | BadComplexityScore
  | ComplexityOutOfRange
  | BadPriority

definition validateTask :: "string list \<Rightarrow> taskData \<Rightarrow> task_error list" where
  "validateTask valid_domains td =
     (case td_description td of Value (_ # _) \<Rightarrow> [] | _ \<Rightarrow> [BadDescription])
     @ (case td_domainLabel td of
          Value (c # cs) \<Rightarrow> (if c # cs \<in> set valid_domains then [] else [UnknownDomain])
        | _ \<Rightarrow> [BadDomainLabel])
     @ (case td_complexityScore td of
          Value c \<Rightarrow> (if c < 1 \<or> c > 10 then [ComplexityOutOfRange] else [])
        | _ \<Rightarrow> [BadComplexityScore])
     @ (case td_priority td of WrongType \<Rightarrow> [BadPriority] | _ \<Rightarrow> [])"

record seedPerformance =
  seed_tasksCompleted :: "nat option"
  seed_successRate :: "real option"
  seed_averageImpact :: "real option"
  seed_domains :: "(string \<times> domain_perf) list"

record agentMetadata =
  m_id :: "string field"
  m_domainLabels :: "string list option"
  m_skillScores :: "(string \<times> real) list option"
  m_apiEndpoint :: "string field"
  m_performanceData :: "seedPerformance option"

datatype agent_error =
    BadId
  | DuplicateId
  | BadDomainLabels
  | InvalidDomainLabel string
  | BadSkillScores
  | BadApiEndpoint
  | BadPerformanceData

definition validateAgent :: "string list \<Rightarrow> agentMetadata \<Rightarrow> agent list \<Rightarrow> agent_error list" where
  "validateAgent valid_domains m existingAgents =
     (case m_id m of
        WrongType \<Rightarrow> [BadId]
      | Value (c # cs) \<Rightarrow> (if findAgent existingAgents (c # cs) \<noteq> None then [DuplicateId] else [])
      | _ \<Rightarrow> [])
     @ (case m_domainLabels m of
          Some (l # ls) \<Rightarrow> map InvalidDomainLabel (filter (\<lambda>x. x \<notin> set valid_domains) (l # ls))
        | _ \<Rightarrow> [BadDomainLabels])
     @ (case m_skillScores m of Some _ \<Rightarrow> [] | None \<Rightarrow> [BadSkillScores])
     @ (case m_apiEndpoint m of Value (_ # _) \<Rightarrow> [] | _ \<Rightarrow> [BadApiEndpoint])
     @ (case m_performanceData m of Some _ \<Rightarrow> [] | None \<Rightarrow> [BadPerformanceData])"

datatype error =
    InvalidAgent "agent_error list"
  | InvalidTask "task_error list"
  | ParentNotFound string

text \<open>\<^verbatim>\<open>this.agents[agentId] = {...}\<close>: an existing key keeps its place.\<close>

fun setAgent :: "agent \<Rightarrow> agent list \<Rightarrow> agent list" where
  "setAgent a [] = [a]"
| "setAgent a (b # bs) = (if agent_id b = agent_id a then a # bs else b # setAgent a bs)"

text \<open>
  \<^verbatim>\<open>registerAgent(metadata)\<close>; \<open>uuid\<close> is the first group of the UUID drawn when the
  metadata carry no id.
\<close>

definition registerAgent :: "string list \<Rightarrow> string \<Rightarrow> agentMetadata \<Rightarrow> engine \<Rightarrow> error + string \<times> engine" where
  "registerAgent valid_domains uuid m s =
     (let errors = validateAgent valid_domains m (agents s)
      in if errors \<noteq> [] then Inl (InvalidAgent errors)
         else
           (let agentId = (case m_id m of Value (c # cs) \<Rightarrow> c # cs | _ \<Rightarrow> ''agent_'' @ uuid);
                seed = the (m_performanceData m);
                a = \<lparr>agent_id = agentId,
                     domainLabels = the (m_domainLabels m),
                     skillScores = the (m_skillScores m),
                     apiEndpoint = (case m_apiEndpoint m of Value e \<Rightarrow> e | _ \<Rightarrow> []),
                     performanceData =
                       \<lparr>tasksCompleted = (case seed_tasksCompleted seed of Some n \<Rightarrow> n | None \<Rightarrow> 0),
                        successRate = (case seed_successRate seed of Some r \<Rightarrow> r | None \<Rightarrow> 0),
                        averageImpact = (case seed_averageImpact seed of Some r \<Rightarrow> r | None \<Rightarrow> 0),
                        domains = seed_domains seed\<rparr>,
                     agent_status = Idle\<rparr>
            in Inr (agentId, s\<lparr>agents := setAgent a (agents s)\<rparr>)))"

text \<open>The comparator both sorts of the queue use.\<close>

definition queueOrder :: "task \<Rightarrow> task \<Rightarrow> real" where
  "queueOrder a b =
     (let priorityDiff = or_opt (priority b) 1 - or_opt (priority a) 1
      in if priorityDiff \<noteq> 0 then priorityDiff
         else or_num (predictedImpact b) 0 - or_num (predictedImpact a) 0)"

text \<open>\<^verbatim>\<open>submitTask(taskData)\<close>; \<open>uuid\<close> is the UUID drawn for the task.\<close>

definition submitTask :: "string list \<Rightarrow> string \<Rightarrow> taskData \<Rightarrow> engine \<Rightarrow> error + string \<times> engine" where
  "submitTask valid_domains uuid td s =
     (let errors = validateTask valid_domains td
      in if errors \<noteq> [] then Inl (InvalidTask errors)
         else
           (let taskId = ''task_'' @ uuid;
                complexity = (case td_complexityScore td of Value c \<Rightarrow> c | _ \<Rightarrow> 0);
                prio = (case td_priority td of Value p \<Rightarrow> Some p | _ \<Rightarrow> None);
                domain = (case td_domainLabel td of Value d \<Rightarrow> d | _ \<Rightarrow> []);
                t = \<lparr>task_id = taskId,
                     description = (case td_description td of Value d \<Rightarrow> d | _ \<Rightarrow> []),
                     domainLabel = domain,
                     complexityScore = complexity,
                     priority = prio,
                     dependencies = (case td_dependencies td of Some ds \<Rightarrow> ds | None \<Rightarrow> []),
                     subtasks = [],
                     parentTaskId = (case td_parentTaskId td of Some (c # cs) \<Rightarrow> Some (c # cs) | _ \<Rightarrow> None),
                     interferedBy = td_interferedBy td,
                     status = Pending,
                     assignedTo = None,
                     retryCount = 0,
                     failedAgents = [],
                     predictedImpact = predictImpact (agents s) complexity prio domain,
                     predictedSuccess = None,
                     isCollaborative = False,
                     suggestedAction = None\<rparr>
            in Inr (taskId, s\<lparr>taskQueue := sort_by queueOrder (taskQueue s @ [t])\<rparr>)))"

section \<open>Decomposition and the remediation strategies\<close>

record subtaskSpec =
  sp_description :: string
  sp_domainLabel :: string
  sp_complexityScore :: real
  sp_priority :: "real option"
  sp_dependencies :: "string list option"

definition mkSubtask :: "agent list \<Rightarrow> string \<Rightarrow> string \<Rightarrow> subtaskSpec \<Rightarrow> task" where
  "mkSubtask as parentId uuid spec =
     \<lparr>task_id = ''subtask_'' @ uuid,
      description = sp_description spec,
      domainLabel = sp_domainLabel spec,
      complexityScore = sp_complexityScore spec,
      priority = sp_priority spec,
      dependencies = (case sp_dependencies spec of Some ds \<Rightarrow> ds | None \<Rightarrow> []),
      subtasks = [],
      parentTaskId = Some parentId,
      interferedBy = None,
      status = Pending,
      assignedTo = None,
      retryCount = 0,
      failedAgents = [],
      predictedImpact =
        predictImpact as (sp_complexityScore spec) (sp_priority spec) (sp_domainLabel spec),
      predictedSuccess = None,
      isCollaborative = False,
      suggestedAction = None\<rparr>"

text \<open>
  The loop of \<^verbatim>\<open>decomposeTask\<close>: each specification, paired with the UUID drawn for it, is
  pushed on the queue and its id on the parent's \<^verbatim>\<open>subtasks\<close>.
\<close>

fun pushSubtasks :: "agent list \<Rightarrow> string \<Rightarrow> (string \<times> subtaskSpec) list \<Rightarrow> task list \<Rightarrow> task list" where
  "pushSubtasks as parentId [] q = q"
| "pushSubtasks as parentId ((uuid, spec) # rest) q =
     pushSubtasks as parentId rest
       (updateTask parentId (\<lambda>p. p\<lparr>subtasks := subtasks p @ [''subtask_'' @ uuid]\<rparr>)
          (q @ [mkSubtask as parentId uuid spec]))"

text \<open>
  \<^verbatim>\<open>decomposeTask(parentTaskId, subtaskSpecs)\<close>; \<open>uuids i\<close> is the UUID drawn in the
  \<open>i\<close>-th round of the loop.  It returns the parent's \<^verbatim>\<open>subtasks\<close>.
\<close>

definition decomposeTask :: "(nat \<Rightarrow> string) \<Rightarrow> string \<Rightarrow> subtaskSpec list \<Rightarrow> engine \<Rightarrow> error + string list \<times> engine" where
  "decomposeTask uuids parentTaskId' subtaskSpecs s =
     (case findTask (taskQueue s) parentTaskId' of
        None \<Rightarrow> Inl (ParentNotFound parentTaskId')
      | Some _ \<Rightarrow>
          (let q1 = updateTask parentTaskId' (\<lambda>p. p\<lparr>status := WaitingForSubtasks\<rparr>) (taskQueue s);
               q2 = pushSubtasks (agents s) parentTaskId'
                      (zip (map uuids [0..<length subtaskSpecs]) subtaskSpecs) q1;
               s' = s\<lparr>taskQueue := sort_by queueOrder q2\<rparr>
           in Inr (case findTask q2 parentTaskId' of Some p \<Rightarrow> subtasks p | None \<Rightarrow> [], s')))"

definition splitSpecs :: "task \<Rightarrow> subtaskSpec list" where
  "splitSpecs t =
     [\<lparr>sp_description = ''Subtask 1: Initial phase of '' @ description t,
       sp_domainLabel = domainLabel t,
       sp_complexityScore = of_int \<lceil>complexityScore t / 2\<rceil>,
       sp_priority = Some (or_opt (priority t) 1 + 1),
       sp_dependencies = None\<rparr>,
      \<lparr>sp_description = ''Subtask 2: Conclusion of '' @ description t,
       sp_domainLabel = domainLabel t,
       sp_complexityScore = of_int \<lfloor>complexityScore t / 2\<rfloor>,
       sp_priority = priority t,
       sp_dependencies = Some []\<rparr>]"

definition handleTaskSplitting :: "(nat \<Rightarrow> string) \<Rightarrow> task \<Rightarrow> engine \<Rightarrow> error + engine" where
  "handleTaskSplitting uuids t s =
     (case decomposeTask uuids (task_id t) (splitSpecs t) s of
        Inl e \<Rightarrow> Inl e
      | Inr (_, s') \<Rightarrow> Inr s')"

definition handleTaskCollaboration :: "string \<Rightarrow> engine \<Rightarrow> engine" where
  "handleTaskCollaboration taskId s =
     s\<lparr>taskQueue :=
         updateTask taskId
           (\<lambda>t. t\<lparr>isCollaborative := True,
                   priority := Some (min (or_opt (priority t) 1 + 2) 10),
                   suggestedAction := Some ''USE_COLLABORATION_PROTOCOL''\<rparr>)
           (taskQueue s)\<rparr>"


section \<open>Outcome handling\<close>

definition setAgentStatus :: "string \<Rightarrow> agent_status \<Rightarrow> engine \<Rightarrow> engine" where
  "setAgentStatus agentId st s =
     s\<lparr>agents := updateAgent agentId (\<lambda>a. a\<lparr>agent_status := st\<rparr>) (agents s)\<rparr>"

text \<open>The retry bookkeeping that reassignment and failure share.\<close>

definition retryOrFail :: "string \<Rightarrow> task \<Rightarrow> task" where
  "retryOrFail agentId t =
     (let t' = t\<lparr>retryCount := retryCount t + 1, failedAgents := failedAgents t @ [agentId]\<rparr>
      in if retryCount t' < 3 then t'\<lparr>status := Pending, assignedTo := None\<rparr>
         else t'\<lparr>status := Failed\<rparr>)"

definition handleTaskReassignment :: "string \<Rightarrow> string \<Rightarrow> engine \<Rightarrow> engine" where
  "handleTaskReassignment taskId agentId s =
     (let s1 = (if findAgent (agents s) agentId \<noteq> None then setAgentStatus agentId Idle s else s)
      in s1\<lparr>taskQueue := updateTask taskId (retryOrFail agentId) (taskQueue s1)\<rparr>)"

definition handleTaskFailure :: "string \<Rightarrow> string \<Rightarrow> engine \<Rightarrow> engine" where
  "handleTaskFailure taskId agentId s =
     (let domain = (case findTask (taskQueue s) taskId of Some t \<Rightarrow> domainLabel t | None \<Rightarrow> []);
          s1 = (if findAgent (agents s) agentId \<noteq> None
                then updateAgentPerformance (setAgentStatus agentId Idle s) agentId False 0 domain
                else s)
      in s1\<lparr>taskQueue := updateTask taskId (retryOrFail agentId) (taskQueue s1)\<rparr>)"

subsection \<open>Aggregation of sub-task results\<close>

fun join :: "string \<Rightarrow> string list \<Rightarrow> string" where
  "join sep [] = []"
| "join sep [x] = x"
| "join sep (x # y # ys) = x @ sep @ join sep (y # ys)"

text \<open>A template literal prints an absent value as \<^verbatim>\<open>undefined\<close>.\<close>

definition render :: "string option \<Rightarrow> string" where
  "render v = (case v of Some x \<Rightarrow> x | None \<Rightarrow> ''undefined'')"

definition newline :: string where
  "newline = [CHR 0x0A]"

text \<open>The object \<^verbatim>\<open>aggregatedResult\<close>; a numeric field that is \<open>None\<close> is NaN.\<close>

record aggregatedResult =
  ag_resultData :: string
  ag_confidenceScore :: "real option"
  ag_predictedImpact :: "real option"
  ag_actualImpact :: "real option"
  ag_executionTime :: real

definition mean_fixed :: "nat \<Rightarrow> real option \<Rightarrow> nat \<Rightarrow> real option" where
  "mean_fixed d acc n =
     (case acc of
        None \<Rightarrow> None
      | Some x \<Rightarrow> if n = 0 then None else Some (toFixed d (x / real n)))"

definition composeAggregate :: "task_output list \<Rightarrow> shared_result list option \<Rightarrow> aggregatedResult" where
  "composeAggregate subtaskResults collabContext =
     (let aggregatedData =
            join (newline @ ''---'' @ newline)
              (map (\<lambda>r. ''[Agent '' @ o_agentId r @ '']: '' @ render (o_resultData r)) subtaskResults);
          aggregatedData' =
            (case collabContext of
               Some (e # es) \<Rightarrow>
                 aggregatedData @ newline @ newline @ ''=== Collaborative Contributions ===''
                 @ newline
                 @ concat (map (\<lambda>(taskId, agentId, data).
                                  ''[Task '' @ taskId @ '' by Agent '' @ agentId @ '']: '' @ data
                                  @ newline) (e # es))
             | _ \<Rightarrow> aggregatedData);
          n = length subtaskResults
      in \<lparr>ag_resultData = aggregatedData',
          ag_confidenceScore =
            mean_fixed 2 (foldl (\<lambda>acc r. js_add acc (o_confidenceScore r)) (Some 0) subtaskResults) n,
          ag_predictedImpact =
            mean_fixed 1 (Some (foldl (\<lambda>acc r. acc + or_num (o_predictedImpact r) 0) 0 subtaskResults)) n,
          ag_actualImpact =
            mean_fixed 1 (Some (foldl (\<lambda>acc r. acc + or_num (o_actualImpact r) 0) 0 subtaskResults)) n,
          ag_executionTime = foldl (\<lambda>acc r. acc + or_zero (o_executionTime r)) 0 subtaskResults\<rparr>)"

text \<open>The fields of \<^verbatim>\<open>aggregatedResult\<close> that \<^verbatim>\<open>logOutput\<close> reads.\<close>

definition of_real_opt :: "real option \<Rightarrow> jsnum" where
  "of_real_opt v = (case v of Some x \<Rightarrow> JNum x | None \<Rightarrow> JNaN)"

definition as_output :: "aggregatedResult \<Rightarrow> dispatch_result" where
  "as_output r =
     \<lparr>resultData = Some (ag_resultData r),
      confidenceScore = of_real_opt (ag_confidenceScore r),
      actualImpact = of_real_opt (ag_actualImpact r),
      executionTime = JNum (ag_executionTime r)\<rparr>"

definition AGGREGATOR_SYSTEM :: string where
  "AGGREGATOR_SYSTEM = ''AGGREGATOR_SYSTEM''"

definition children :: "task list \<Rightarrow> string \<Rightarrow> task list" where
  "children q parentId = filter (\<lambda>t. parentTaskId t = Some parentId) q"

definition pendingWork :: "task list \<Rightarrow> nat" where
  "pendingWork q = length (filter (\<lambda>t. status t \<noteq> Completed) q)"

definition markCompleted :: "string \<Rightarrow> task list \<Rightarrow> task list" where
  "markCompleted taskId q = updateTask taskId (\<lambda>t. t\<lparr>status := Completed\<rparr>) q"

text \<open>
  The record \<^verbatim>\<open>logOutput\<close> writes and the state it leaves before it looks at the parent.
\<close>

definition outputRecord :: "engine \<Rightarrow> string \<Rightarrow> string \<Rightarrow> dispatch_result \<Rightarrow> task_output" where
  "outputRecord s taskId agentId out =
     \<lparr>o_taskId = taskId,
      o_agentId = agentId,
      o_resultData = resultData out,
      o_confidenceScore = confidenceScore out,
      o_predictedImpact =
        (case findTask (taskQueue s) taskId of Some t \<Rightarrow> predictedImpact t | None \<Rightarrow> 0),
      o_actualImpact = or_zero (actualImpact out),
      o_executionTime = executionTime out\<rparr>"

definition commitOutput :: "engine \<Rightarrow> string \<Rightarrow> string \<Rightarrow> dispatch_result \<Rightarrow> task \<Rightarrow> engine" where
  "commitOutput s taskId agentId out t =
     (let s1 = s\<lparr>taskOutputs := (taskOutputs s)(taskId \<mapsto> outputRecord s taskId agentId out),
                 taskQueue := markCompleted taskId (taskQueue s)\<rparr>
      in if findAgent (agents s1) agentId \<noteq> None
         then updateAgentPerformance (setAgentStatus agentId Idle s1) agentId True
                (or_zero (actualImpact out)) (domainLabel t)
         else s1)"


text \<open>
  \<^verbatim>\<open>logOutput\<close> and \<^verbatim>\<open>checkAndAggregateParent\<close> call each other: a completed sub-task
  may complete its parent, which may complete its own parent.  Each round completes a task
  that was not completed, which bounds the recursion.  When \<^verbatim>\<open>logOutput\<close> finds no task
  under the id, the source raises a \<^verbatim>\<open>TypeError\<close> at its last line, after the record is
  written; the caller below accounts for it.
\<close>

lemma taskQueue_commitOutput:
  "taskQueue (commitOutput s taskId agentId out t) = markCompleted taskId (taskQueue s)"
  by (simp add: commitOutput_def Let_def updateAgentPerformance_def setAgentStatus_def)

lemma pendingWork_markCompleted:
  "findTask q i = Some p \<Longrightarrow> status p \<noteq> Completed
   \<Longrightarrow> pendingWork (markCompleted i q) < pendingWork q"
  by (induction q) (auto simp: findTask_def pendingWork_def markCompleted_def split: if_splits)

function logOutput :: "string \<Rightarrow> string \<Rightarrow> dispatch_result \<Rightarrow> engine \<Rightarrow> engine"
  and checkAndAggregateParent :: "string \<Rightarrow> engine \<Rightarrow> engine" where
  "logOutput taskId agentId out s =
     (case findTask (taskQueue s) taskId of
        None \<Rightarrow> s\<lparr>taskOutputs := (taskOutputs s)(taskId \<mapsto> outputRecord s taskId agentId out)\<rparr>
      | Some t \<Rightarrow>
          (case parentTaskId t of
             Some (c # cs) \<Rightarrow> checkAndAggregateParent (c # cs) (commitOutput s taskId agentId out t)
           | _ \<Rightarrow> commitOutput s taskId agentId out t))"
| "checkAndAggregateParent parentId s =
     (case findTask (taskQueue s) parentId of
        None \<Rightarrow> s
      | Some parentTask \<Rightarrow>
          if status parentTask = Completed then s
          else
            (let subs = children (taskQueue s) parentId
             in if subs \<noteq> [] \<and> list_all (\<lambda>t. status t = Completed) subs
                then logOutput parentId AGGREGATOR_SYSTEM
                       (as_output
                          (composeAggregate (List.map_filter (\<lambda>t. taskOutputs s (task_id t)) subs)
                             (collaborationSpace s parentId))) s
                else s))"
  by pat_completeness auto
termination
proof (relation "measure (\<lambda>x. case x of
          Inl (taskId, agentId, out, s) \<Rightarrow> 2 * pendingWork (markCompleted taskId (taskQueue s)) + 1
        | Inr (parentId, s) \<Rightarrow> 2 * pendingWork (taskQueue s))", goal_cases)
  case 1
  then show ?case by simp
next
  case (2 taskId agentId out s t c cs)
  then show ?case by (simp add: taskQueue_commitOutput)
next
  case (3 parentId s parentTask subs)
  then show ?case
    using pendingWork_markCompleted [of "taskQueue s" parentId parentTask] by simp
qed

declare logOutput.simps [simp del] checkAndAggregateParent.simps [simp del]

section \<open>The scheduler\<close>

definition isReady :: "task list \<Rightarrow> task \<Rightarrow> bool" where
  "isReady q t =
     (if status t \<noteq> Pending then False
      else if subtasks t \<noteq> [] then False
      else list_all (\<lambda>depId. case findTask q depId of
                                Some depTask \<Rightarrow> status depTask = Completed
                              | None \<Rightarrow> False) (dependencies t))"

definition startProcessing :: "string \<Rightarrow> string \<Rightarrow> real \<Rightarrow> engine \<Rightarrow> engine" where
  "startProcessing taskId agentId p s =
     s\<lparr>taskQueue :=
         updateTask taskId
           (\<lambda>t. t\<lparr>status := Processing, assignedTo := Some agentId, predictedSuccess := Some p\<rparr>)
           (taskQueue s),
       agents := updateAgent agentId (\<lambda>a. a\<lparr>agent_status := Busy\<rparr>) (agents s)\<rparr>"

text \<open>
  \<^verbatim>\<open>processQueue\<close> up to the call of the dispatcher: the new state and, when a task was
  dispatched, the task and the agent of the dispatch in flight.
\<close>

definition processQueue_dispatch :: "(nat \<Rightarrow> string) \<Rightarrow> engine \<Rightarrow> error + engine \<times> (string \<times> string) option" where
  "processQueue_dispatch uuids s =
     (case find (isReady (taskQueue s)) (taskQueue s) of
        None \<Rightarrow> Inr (s, None)
      | Some nextTask \<Rightarrow>
          (case evaluateAssignment s nextTask (failedAgents nextTask) of
             (None, _) \<Rightarrow> Inr (s, None)
           | (Some agentId, predicted) \<Rightarrow>
               if agentId = [] then Inr (s, None)
               else if predicted < threshold then
                 (case suggestRemediation s nextTask of
                    SPLIT \<Rightarrow>
                      (case handleTaskSplitting uuids nextTask s of
                         Inl e \<Rightarrow> Inl e
                       | Inr s' \<Rightarrow> Inr (s', None))
                  | COLLABORATE \<Rightarrow>
                      Inr (startProcessing (task_id nextTask) agentId predicted
                             (handleTaskCollaboration (task_id nextTask) s),
                           Some (task_id nextTask, agentId))
                  | REROUTE \<Rightarrow> Inr (s, None))
               else Inr (startProcessing (task_id nextTask) agentId predicted s,
                         Some (task_id nextTask, agentId))))"

text \<open>
  \<^verbatim>\<open>processQueue\<close> from the point where the dispatch settles: the body of the
  \<^verbatim>\<open>try\<close> after the \<^verbatim>\<open>await\<close>, and the \<^verbatim>\<open>catch\<close>.  Reading \<^verbatim>\<open>confidenceScore\<close> of null
  or undefined raises a \<^verbatim>\<open>TypeError\<close>, which the \<^verbatim>\<open>catch\<close> handles like a rejection.
\<close>

definition CONFIDENCE_THRESHOLD :: real where
  "CONFIDENCE_THRESHOLD = 0.6"

definition processQueue_settle :: "string \<Rightarrow> string \<Rightarrow> dispatch_outcome \<Rightarrow> engine \<Rightarrow> engine" where
  "processQueue_settle taskId agentId outcome s =
     (case outcome of
        Rejected \<Rightarrow> handleTaskFailure taskId agentId s
      | ResolvedNullish \<Rightarrow> handleTaskFailure taskId agentId s
      | Resolved result \<Rightarrow>
          if js_lt (confidenceScore result) CONFIDENCE_THRESHOLD
          then handleTaskReassignment taskId agentId s
          else
            (let s' = logOutput taskId agentId result s
             in if findTask (taskQueue s) taskId = None
                then handleTaskFailure taskId agentId s'
                else s'))"

text \<open>
  One awaited call of \<^verbatim>\<open>processQueue\<close>: the dispatcher, a parameter, settles the dispatch
  before anything else touches the engine.
\<close>

definition processQueue :: "(agent \<Rightarrow> task \<Rightarrow> dispatch_outcome) \<Rightarrow> (nat \<Rightarrow> string) \<Rightarrow> engine \<Rightarrow> error + engine" where
  "processQueue dispatchToAgent uuids s =
     (case processQueue_dispatch uuids s of
        Inl e \<Rightarrow> Inl e
      | Inr (s1, None) \<Rightarrow> Inr s1
      | Inr (s1, Some (taskId, agentId)) \<Rightarrow>
          (case (findAgent (agents s1) agentId, findTask (taskQueue s1) taskId) of
             (Some a, Some t) \<Rightarrow> Inr (processQueue_settle taskId agentId (dispatchToAgent a t) s1)
           | _ \<Rightarrow> Inr s1))"


section \<open>The engine as a transition system\<close>

text \<open>
  Dispatch is asynchronous: between the call of the dispatcher and its settling, other
  operations run.  A system state is the engine together with the dispatches in flight,
  and an event is one operation from outside: a registration, a submission, a tick of the
  execution loop up to its \<^verbatim>\<open>await\<close>, or the settling of a dispatch in flight.  The strings
  of an event are the UUIDs the operation draws; an event whose UUID is already taken is
  not enabled.  An operation that throws leaves the engine as it was.
\<close>

datatype event =
    Register string agentMetadata
  | Submit string taskData
  | Tick string string
  | Settle string string dispatch_outcome

type_synonym system = "engine \<times> (string \<times> string) list"

definition fire :: "string list \<Rightarrow> event \<Rightarrow> system \<Rightarrow> system option" where
  "fire valid_domains ev sys =
     (case sys of (s, inflight) \<Rightarrow>
        (case ev of
           Register uuid m \<Rightarrow>
             (if (case m_id m of Value (c # cs) \<Rightarrow> False | _ \<Rightarrow> True)
                 \<and> findAgent (agents s) (''agent_'' @ uuid) \<noteq> None
              then None
              else (case registerAgent valid_domains uuid m s of
                      Inl _ \<Rightarrow> Some (s, inflight)
                    | Inr (_, s') \<Rightarrow> Some (s', inflight)))
         | Submit uuid td \<Rightarrow>
             (if findTask (taskQueue s) (''task_'' @ uuid) \<noteq> None then None
              else (case submitTask valid_domains uuid td s of
                      Inl _ \<Rightarrow> Some (s, inflight)
                    | Inr (_, s') \<Rightarrow> Some (s', inflight)))
         | Tick u0 u1 \<Rightarrow>
             (if u0 = u1 \<or> findTask (taskQueue s) (''subtask_'' @ u0) \<noteq> None
                 \<or> findTask (taskQueue s) (''subtask_'' @ u1) \<noteq> None
              then None
              else (case processQueue_dispatch (\<lambda>i. if i = 0 then u0 else u1) s of
                      Inl _ \<Rightarrow> Some (s, inflight)
                    | Inr (s', None) \<Rightarrow> Some (s', inflight)
                    | Inr (s', Some d) \<Rightarrow> Some (s', inflight @ [d])))
         | Settle taskId agentId outcome \<Rightarrow>
             (if (taskId, agentId) \<in> set inflight
              then Some (processQueue_settle taskId agentId outcome s,
                         remove1 (taskId, agentId) inflight)
              else None)))"

fun run :: "string list \<Rightarrow> event list \<Rightarrow> system \<Rightarrow> system option" where
  "run valid_domains [] sys = Some sys"
| "run valid_domains (e # es) sys =
     (case fire valid_domains e sys of
        None \<Rightarrow> None
      | Some sys' \<Rightarrow> run valid_domains es sys')"

definition emptyEngine :: engine where
  "emptyEngine =
     \<lparr>agents = [], taskQueue = [], taskOutputs = Map.empty, collaborationSpace = Map.empty\<rparr>"

text \<open>The engine a list of events leaves, started from the empty engine.\<close>

definition engineAfter :: "string list \<Rightarrow> event list \<Rightarrow> engine" where
  "engineAfter valid_domains evs =
     (case run valid_domains evs (emptyEngine, []) of
        Some (s, _) \<Rightarrow> s
      | None \<Rightarrow> emptyEngine)"

text \<open>\<^verbatim>\<open>n\<close> awaited calls of \<^verbatim>\<open>processQueue\<close> in a row.\<close>

fun ticks :: "(agent \<Rightarrow> task \<Rightarrow> dispatch_outcome) \<Rightarrow> (nat \<Rightarrow> string) \<Rightarrow> nat \<Rightarrow> engine \<Rightarrow> error + engine" where
  "ticks dispatchToAgent uuids 0 s = Inr s"
| "ticks dispatchToAgent uuids (Suc n) s =
     (case processQueue dispatchToAgent uuids s of
        Inl e \<Rightarrow> Inl e
      | Inr s' \<Rightarrow> ticks dispatchToAgent uuids n s')"

section \<open>Scenario data\<close>

text \<open>
  The domain labels the repository's simulations use stand for the configured list, and
  the agents and tasks below are those of its scenarios.
\<close>

definition scenarioDomains :: "string list" where
  "scenarioDomains =
     [''research'', ''data-collection'', ''analysis'', ''logic'', ''coding'',
      ''creative-writing'', ''optimization'', ''translation'', ''summarization'',
      ''data-science'']"

definition noHistory :: seedPerformance where
  "noHistory = \<lparr>seed_tasksCompleted = None, seed_successRate = None,
                 seed_averageImpact = None, seed_domains = []\<rparr>"

definition newAgent :: "string \<Rightarrow> string \<Rightarrow> real \<Rightarrow> agentMetadata" where
  "newAgent i domain skill =
     \<lparr>m_id = Value i, m_domainLabels = Some [domain], m_skillScores = Some [(domain, skill)],
      m_apiEndpoint = Value (''http://'' @ i), m_performanceData = Some noHistory\<rparr>"

definition newTask :: "string \<Rightarrow> string \<Rightarrow> real \<Rightarrow> real \<Rightarrow> taskData" where
  "newTask descr domain complexity prio =
     \<lparr>td_description = Value descr, td_domainLabel = Value domain,
      td_complexityScore = Value complexity, td_priority = Value prio,
      td_dependencies = None, td_parentTaskId = None, td_interferedBy = None\<rparr>"

text \<open>A junior agent and a task of complexity 9 and priority 10, then one tick.\<close>

definition splitSetup :: "event list" where
  "splitSetup =
     [Register ''r1'' (newAgent ''junior-1'' ''coding'' 3),
      Submit ''1'' (newTask ''Very complex task'' ''coding'' 9 10)]"

definition splitScenario :: "event list" where
  "splitScenario = splitSetup @ [Tick ''a'' ''b'']"

text \<open>A task of complexity 1, which the scheduler itself would never split.\<close>

definition trivialSetup :: "event list" where
  "trivialSetup =
     [Register ''r1'' (newAgent ''junior-1'' ''coding'' 3),
      Submit ''1'' (newTask ''Trivial task'' ''coding'' 1 5)]"

text \<open>A sub-task specification as the object \<^verbatim>\<open>submitTask\<close> would receive.\<close>

definition specData :: "subtaskSpec \<Rightarrow> taskData" where
  "specData spec =
     \<lparr>td_description = Value (sp_description spec),
      td_domainLabel = Value (sp_domainLabel spec),
      td_complexityScore = Value (sp_complexityScore spec),
      td_priority = (case sp_priority spec of Some p \<Rightarrow> Value p | None \<Rightarrow> Absent),
      td_dependencies = sp_dependencies spec,
      td_parentTaskId = None,
      td_interferedBy = None\<rparr>"

text \<open>
  One analyst and one analysis task, dispatched by a tick; and a first attempt that comes
  back with confidence 0.4.
\<close>

definition scoringSetup :: "event list" where
  "scoringSetup =
     [Register ''r1'' (newAgent ''analyst'' ''analysis'' 9),
      Submit ''1'' (newTask ''Critical analysis task'' ''analysis'' 5 8),
      Tick ''a'' ''b'']"

definition lowConfidence :: dispatch_result where
  "lowConfidence = \<lparr>resultData = Some ''Initial attempt result'', confidenceScore = JNum 0.4,
                     actualImpact = JUndefined, executionTime = JNum 100\<rparr>"

text \<open>
  The chaotic agent of the edge-case simulation with its task dispatched, and the dispatcher
  output of that simulation's \<^verbatim>\<open>nan\<close> mode.
\<close>

definition chaosSetup :: "event list" where
  "chaosSetup =
     [Register ''r1'' (newAgent ''chaotic_agent'' ''logic'' 10),
      Submit ''1'' (newTask ''Chaos task for nan'' ''logic'' 5 10),
      Tick ''a'' ''b'']"

definition nanResult :: dispatch_result where
  "nanResult = \<lparr>resultData = None, confidenceScore = JNaN, actualImpact = JNaN,
                 executionTime = JNaN\<rparr>"

definition chaosScenario :: "event list" where
  "chaosScenario = chaosSetup @ [Settle ''task_1'' ''chaotic_agent'' (Resolved nanResult)]"

text \<open>
  The dependency workflow: three agents, the tasks A, B and C pushed on the queue with the
  dependencies A on B, B on C and C on A, and a submitted task that depends on A and B.
\<close>

definition specialist :: "string \<Rightarrow> (string \<times> real) list \<Rightarrow> agentMetadata" where
  "specialist i skills =
     \<lparr>m_id = Value i, m_domainLabels = Some (map fst skills), m_skillScores = Some skills,
      m_apiEndpoint = Value (''http://'' @ i), m_performanceData = Some noHistory\<rparr>"

definition circularTask :: "string \<Rightarrow> string \<Rightarrow> string \<Rightarrow> real \<Rightarrow> string \<Rightarrow> task" where
  "circularTask i descr domain complexity dep =
     \<lparr>task_id = i, description = descr, domainLabel = domain, complexityScore = complexity,
      priority = Some 5, dependencies = [dep], subtasks = [], parentTaskId = None,
      interferedBy = None, status = Pending, assignedTo = None, retryCount = 0,
      failedAgents = [], predictedImpact = 0, predictedSuccess = None,
      isCollaborative = False, suggestedAction = None\<rparr>"

definition cyclicWorkflow :: engine where
  "cyclicWorkflow =
     (let s0 = engineAfter scenarioDomains
                 [Register ''r1'' (specialist ''agent-alpha'' [(''analysis'', 9), (''logic'', 8)]),
                  Register ''r2'' (specialist ''agent-beta'' [(''creative-writing'', 8), (''logic'', 7)]),
                  Register ''r3'' (specialist ''agent-gamma'' [(''logic'', 9), (''analysis'', 7)])];
          s1 = s0\<lparr>taskQueue :=
                 [circularTask ''task_cycle_1'' ''Circular Task A'' ''logic'' 6 ''task_cycle_2'',
                  circularTask ''task_cycle_2'' ''Circular Task B'' ''analysis'' 4 ''task_cycle_3'',
                  circularTask ''task_cycle_3'' ''Circular Task C'' ''logic'' 5 ''task_cycle_1'']\<rparr>
      in case submitTask scenarioDomains ''multi_dep''
                ((newTask ''Task depending on Alpha and Beta outputs'' ''creative-writing'' 7 8)
                   \<lparr>td_dependencies := Some [''task_cycle_1'', ''task_cycle_2'']\<rparr>) s1 of
           Inr (_, s2) \<Rightarrow> s2
         | Inl _ \<Rightarrow> s1)"

text \<open>
  Three agents, a task and a task that depends on it; the first task is dispatched three
  times and rejected three times.
\<close>

definition cascadeScenario :: "event list" where
  "cascadeScenario =
     [Register ''r1'' (newAgent ''agent-1'' ''logic'' 9),
      Register ''r2'' (newAgent ''agent-2'' ''logic'' 9),
      Register ''r3'' (newAgent ''agent-3'' ''logic'' 9),
      Submit ''1'' (newTask ''Antecedent'' ''logic'' 5 5),
      Submit ''2'' ((newTask ''Dependent'' ''logic'' 5 8)\<lparr>td_dependencies := Some [''task_1'']\<rparr>),
      Tick ''a'' ''b'', Settle ''task_1'' ''agent-1'' Rejected,
      Tick ''c'' ''d'', Settle ''task_1'' ''agent-2'' Rejected,
      Tick ''e'' ''f'', Settle ''task_1'' ''agent-3'' Rejected]"

text \<open>
  Aggregation: after the split a senior agent registers and takes the two sub-tasks in turn;
  the first comes back with confidence \<open>conf1\<close>, impact 6 and 100 ms, the second with
  confidence 0.9, impact 4 and 150 ms.
\<close>

definition seniorAgent :: agentMetadata where
  "seniorAgent = newAgent ''senior-1'' ''coding'' 9"

definition childResult :: "string \<Rightarrow> real \<Rightarrow> real \<Rightarrow> real \<Rightarrow> dispatch_result" where
  "childResult text conf impact time =
     \<lparr>resultData = Some text, confidenceScore = JNum conf, actualImpact = JNum impact,
      executionTime = JNum time\<rparr>"

definition aggregationSetup :: "real \<Rightarrow> event list" where
  "aggregationSetup conf1 =
     splitScenario
     @ [Register ''r2'' seniorAgent,
        Tick ''c'' ''d'',
        Settle ''subtask_a'' ''senior-1'' (Resolved (childResult ''first half'' conf1 6 100)),
        Tick ''e'' ''f'']"


text \<open>
  Three agents of middling skill and two tasks of priority 5 and 4.  Every dispatch goes
  through COLLABORATE, which raises the task's priority by 2; the second task is dispatched
  and rejected twice while the first is in flight, then the first is rejected too.
\<close>

definition prioritySetup :: "event list" where
  "prioritySetup =
     [Register ''r1'' (newAgent ''agent-1'' ''coding'' 5),
      Register ''r2'' (newAgent ''agent-2'' ''coding'' 5),
      Register ''r3'' (newAgent ''agent-3'' ''coding'' 5),
      Submit ''1'' (newTask ''First'' ''coding'' 5 5),
      Submit ''2'' (newTask ''Second'' ''coding'' 5 4)]"

definition priorityScenario :: "event list" where
  "priorityScenario =
     prioritySetup
     @ [Tick ''a'' ''b'',
        Tick ''c'' ''d'', Settle ''task_2'' ''agent-2'' Rejected,
        Tick ''e'' ''f'', Settle ''task_2'' ''agent-3'' Rejected,
        Settle ''task_1'' ''agent-1'' Rejected]"

text \<open>
  The priority the comparator reads, \<^verbatim>\<open>priority || 1\<close>, and a queue in descending order
  of it.
\<close>

definition effPriority :: "task \<Rightarrow> real" where
  "effPriority t = or_opt (priority t) 1"

definition byPriority :: "task list \<Rightarrow> bool" where
  "byPriority q = sorted_wrt (\<lambda>a b. effPriority b \<le> effPriority a) q"

section \<open>Busy agents and tasks in process\<close>

text \<open>
  The invariant of the execution loop as a test on an engine: an agent is busy exactly when
  the queue holds a task in process that is assigned to it.
\<close>

definition busyIff :: "engine \<Rightarrow> bool" where
  "busyIff s =
     list_all (\<lambda>a. (agent_status a = Busy)
                    = list_ex (\<lambda>t. status t = Processing \<and> assignedTo t = Some (agent_id a))
                        (taskQueue s))
       (agents s)"

text \<open>
  Two runs that end outside the invariant.  In the first a submission names a queued task
  as its parent; when the submitted task completes, \<^verbatim>\<open>checkAndAggregateParent\<close> completes
  the parent under the hands of the agent that works on it.  In the second an agent is
  registered under the id that \<^verbatim>\<open>checkAndAggregateParent\<close> passes to \<^verbatim>\<open>logOutput\<close>; the
  aggregation of the split task then sets that agent idle while its own task is in process.
\<close>

definition parentLinkScenario :: "event list" where
  "parentLinkScenario =
     [Register ''r1'' (newAgent ''agent-1'' ''coding'' 9),
      Register ''r2'' (newAgent ''agent-2'' ''coding'' 9),
      Submit ''1'' (newTask ''Parent'' ''coding'' 5 5),
      Submit ''2'' ((newTask ''Attached'' ''coding'' 5 4)\<lparr>td_parentTaskId := Some ''task_1''\<rparr>),
      Tick ''a'' ''b'',
      Tick ''c'' ''d'',
      Settle ''task_2'' ''agent-2'' (Resolved (childResult ''done'' 0.9 5 100))]"

definition sentinelScenario :: "event list" where
  "sentinelScenario =
     splitScenario
     @ [Register ''r2'' seniorAgent,
        Register ''r3'' (newAgent ''AGGREGATOR_SYSTEM'' ''coding'' 9),
        Submit ''2'' (newTask ''Unrelated'' ''coding'' 5 1),
        Tick ''c'' ''d'',
        Settle ''subtask_a'' ''senior-1'' (Resolved (childResult ''first half'' 0.8 6 100)),
        Tick ''e'' ''f'',
        Tick ''g'' ''h'',
        Settle ''subtask_b'' ''senior-1'' (Resolved (childResult ''second half'' 0.9 4 150))]"

text \<open>
  The events that stay clear of both: no registration under the aggregator's id and no
  submission that carries a \<^verbatim>\<open>parentTaskId\<close>.
\<close>

definition wellBehaved :: "event \<Rightarrow> bool" where
  "wellBehaved ev =
     (case ev of
        Register uuid m \<Rightarrow> m_id m \<noteq> Value AGGREGATOR_SYSTEM
      | Submit uuid td \<Rightarrow> (case td_parentTaskId td of Some (c # cs) \<Rightarrow> False | _ \<Rightarrow> True)
      | _ \<Rightarrow> True)"

text \<open>
  What the invariant depends on.  Of a task only the status, the assignee and the parent
  matter, of an agent only the status; \<open>proc\<close> collects the pairs of a task in process and
  its assignee.  \<open>procInv\<close> ties them to the dispatches in flight: the tasks in process are
  the dispatched ones, every dispatched agent is registered, the busy agents are the
  dispatched ones, no agent has two dispatches, and no agent bears the aggregator's id.
  \<open>parentsWait\<close> says that a task named as a parent waits for its sub-tasks or is completed.
\<close>

type_synonym task_view = "status \<times> string option \<times> string option"

definition proc :: "(string \<Rightarrow> task_view option) \<Rightarrow> (string \<times> string option) set" where
  "proc ts = {(i, a). \<exists>par. ts i = Some (Processing, a, par)}"

definition procInv :: "(string \<times> string option) set \<Rightarrow> (string \<Rightarrow> agent_status option) \<Rightarrow> (string \<times> string) set \<Rightarrow> bool" where
  "procInv P as F \<longleftrightarrow>
       P = (\<lambda>(i, b). (i, Some b)) ` F
     \<and> (\<forall>(i, b) \<in> F. as b \<noteq> None)
     \<and> (\<forall>b. (as b = Some Busy) = (b \<in> snd ` F))
     \<and> (\<forall>i j b. (i, b) \<in> F \<longrightarrow> (j, b) \<in> F \<longrightarrow> i = j)
     \<and> as AGGREGATOR_SYSTEM = None"

definition parentsWait :: "(string \<Rightarrow> task_view option) \<Rightarrow> bool" where
  "parentsWait ts \<longleftrightarrow>
     (\<forall>i st a p. ts i = Some (st, a, Some p)
        \<longrightarrow> (\<exists>a' par'. ts p = Some (WaitingForSubtasks, a', par') \<or> ts p = Some (Completed, a', par')))"

text \<open>
  \<open>completes i ts ts'\<close>: from \<open>ts\<close> to \<open>ts'\<close> the only change is that task \<open>i\<close> and tasks that
  waited for their sub-tasks are now completed.
\<close>

definition completes :: "string \<Rightarrow> (string \<Rightarrow> task_view option) \<Rightarrow> (string \<Rightarrow> task_view option) \<Rightarrow> bool" where
  "completes i ts ts' \<longleftrightarrow>
     (\<forall>j. ts' j = ts j
          \<or> (\<exists>st a par. ts j = Some (st, a, par) \<and> ts' j = Some (Completed, a, par)
                \<and> (j = i \<or> st = WaitingForSubtasks)))"

text \<open>The views of a queue and of the registered agents, and the invariant of a system state.\<close>

definition view :: "task \<Rightarrow> task_view" where
  "view t = (status t, assignedTo t, parentTaskId t)"

definition tview :: "task list \<Rightarrow> string \<Rightarrow> task_view option" where
  "tview q i = map_option view (findTask q i)"

definition aview :: "agent list \<Rightarrow> string \<Rightarrow> agent_status option" where
  "aview A b = map_option agent_status (findAgent A b)"

definition schedInv :: "system \<Rightarrow> bool" where
  "schedInv sys =
     (case sys of (s, F) \<Rightarrow>
        distinct (map task_id (taskQueue s)) \<and> distinct (map agent_id (agents s)) \<and> distinct F
        \<and> procInv (proc (tview (taskQueue s))) (aview (agents s)) (set F)
        \<and> parentsWait (tview (taskQueue s)))"

text \<open>
  The part of the invariant that the aggregation needs, and the effects of \<^verbatim>\<open>logOutput\<close> and
  of \<^verbatim>\<open>checkAndAggregateParent\<close> on the views.
\<close>

definition aggInv :: "engine \<Rightarrow> bool" where
  "aggInv s \<longleftrightarrow>
     distinct (map task_id (taskQueue s)) \<and> parentsWait (tview (taskQueue s))
     \<and> aview (agents s) AGGREGATOR_SYSTEM = None"

definition frameIds :: "engine \<Rightarrow> engine \<Rightarrow> bool" where
  "frameIds s s' \<longleftrightarrow>
     map task_id (taskQueue s') = map task_id (taskQueue s)
     \<and> map agent_id (agents s') = map agent_id (agents s)"

definition logEffect :: "string \<Rightarrow> string \<Rightarrow> engine \<Rightarrow> engine \<Rightarrow> bool" where
  "logEffect taskId agentId s s' \<longleftrightarrow>
     completes taskId (tview (taskQueue s)) (tview (taskQueue s'))
     \<and> (\<exists>a par. tview (taskQueue s') taskId = Some (Completed, a, par))
     \<and> aview (agents s') = (if aview (agents s) agentId = None then aview (agents s)
                            else (aview (agents s))(agentId \<mapsto> Idle))
     \<and> frameIds s s'"

definition checkEffect :: "string \<Rightarrow> engine \<Rightarrow> engine \<Rightarrow> bool" where
  "checkEffect parentId s s' \<longleftrightarrow>
     (tview (taskQueue s') = tview (taskQueue s)
      \<or> ((\<exists>a par. tview (taskQueue s) parentId = Some (WaitingForSubtasks, a, par))
          \<and> completes parentId (tview (taskQueue s)) (tview (taskQueue s'))))
     \<and> aview (agents s') = aview (agents s)
     \<and> frameIds s s'"


section \<open>Properties of the compatibility scorer\<close>













section \<open>Basic facts about the queue operations\<close>

lemma mset_insert_by: "mset (insert_by cmp x xs) = add_mset x (mset xs)"
  by (induction xs) auto

lemma mset_sort_by: "mset (sort_by cmp xs) = mset xs"
  by (induction xs) (auto simp: sort_by_def mset_insert_by)

lemma set_sort_by: "set (sort_by cmp xs) = set xs"
  using mset_sort_by [of cmp xs] by (metis set_mset_mset)

lemma updateTask_append:
  "findTask q i \<noteq> None \<Longrightarrow> updateTask i f (q @ r) = updateTask i f q @ r"
  by (induction q) (auto simp: findTask_def)

lemma findTask_updateTask:
  "findTask q i = Some t \<Longrightarrow> task_id (f t) = i \<Longrightarrow> findTask (updateTask i f q) i = Some (f t)"
  by (induction q) (auto simp: findTask_def split: if_splits)

lemma updateTask_updateTask:
  "(\<And>t. task_id (f t) = task_id t)
   \<Longrightarrow> updateTask i g (updateTask i f q) = updateTask i (g \<circ> f) q"
  by (induction q) auto

text \<open>What \<^verbatim>\<open>handleTaskSplitting\<close> leaves when the task is the one the queue holds under its id.\<close>

lemma handleTaskSplitting_result:
  assumes own: "findTask (taskQueue s) (task_id t) = Some t"
  shows "handleTaskSplitting uuids t s
         = Inr (s\<lparr>taskQueue := sort_by queueOrder
                  (updateTask (task_id t)
                     (\<lambda>p. p\<lparr>status := WaitingForSubtasks,
                             subtasks := subtasks p @ [''subtask_'' @ uuids 0, ''subtask_'' @ uuids 1]\<rparr>)
                     (taskQueue s)
                   @ [mkSubtask (agents s) (task_id t) (uuids 0) (splitSpecs t ! 0),
                      mkSubtask (agents s) (task_id t) (uuids 1) (splitSpecs t ! 1)])\<rparr>)"
proof -
  let ?q1 = "updateTask (task_id t) (\<lambda>p. p\<lparr>status := WaitingForSubtasks\<rparr>) (taskQueue s)"
  have f1: "findTask ?q1 (task_id t) \<noteq> None"
    using findTask_updateTask [OF own, of "\<lambda>p. p\<lparr>status := WaitingForSubtasks\<rparr>"] by simp
  have f2: "findTask (updateTask (task_id t) (\<lambda>p. p\<lparr>subtasks := subtasks p @ [x]\<rparr>) ?q1)
              (task_id t) \<noteq> None" for x
    by (simp add: updateTask_updateTask findTask_updateTask [OF own] comp_def)
  have push: "pushSubtasks (agents s) (task_id t)
                (zip (map uuids [0..<length (splitSpecs t)]) (splitSpecs t)) ?q1
              = updateTask (task_id t)
                     (\<lambda>p. p\<lparr>status := WaitingForSubtasks,
                             subtasks := subtasks p @ [''subtask_'' @ uuids 0, ''subtask_'' @ uuids 1]\<rparr>)
                     (taskQueue s)
                   @ [mkSubtask (agents s) (task_id t) (uuids 0) (splitSpecs t ! 0),
                      mkSubtask (agents s) (task_id t) (uuids 1) (splitSpecs t ! 1)]"
    using f1 f2
    by (simp add: splitSpecs_def upt_rec [of 0] upt_rec [of 1] updateTask_append
        updateTask_updateTask comp_def)
  show ?thesis
    by (simp add: handleTaskSplitting_def decomposeTask_def Let_def own push)
qed

section \<open>The SPLIT remediation\<close>

text \<open>
  C6, as stated, fails: the first sub-task's priority is not capped.  After the tick of the
  splitting scenario the children of the complexity-9, priority-10 task have complexities
  5 and 4 and priorities 11 and 10.
\<close>

theorem split_priority_uncapped:
  "map (\<lambda>t. (complexityScore t, priority t))
     (children (taskQueue (engineAfter scenarioDomains splitScenario)) ''task_1'')
   = [(5, Some 11), (4, Some 10)]"
  by code_simp

text \<open>
  C6, amended: when the scheduler applies SPLIT to the ready task \<open>t\<close> (the task the queue
  holds under its id), the tick dispatches nothing, \<open>t\<close> becomes \<^verbatim>\<open>waiting_for_subtasks\<close>
  with the two new ids appended to its sub-tasks, and the queue gains exactly two pending
  tasks: both in the domain of \<open>t\<close>, both with \<open>t\<close> as parent and no dependencies, of
  complexity \<open>\<lceil>c/2\<rceil>\<close> and \<open>\<lfloor>c/2\<rfloor>\<close>, and of priority \<open>(p || 1) + 1\<close>, uncapped, and \<open>p\<close>.
\<close>

theorem split_halves:
  assumes ready: "find (isReady (taskQueue s)) (taskQueue s) = Some t"
    and own: "findTask (taskQueue s) (task_id t) = Some t"
    and agent: "evaluateAssignment s t (failedAgents t) = (Some agentId, p)" "agentId \<noteq> []"
    and low: "p < threshold"
    and strat: "suggestRemediation s t = SPLIT"
  shows "\<exists>s' c1 c2.
      processQueue_dispatch uuids s = Inr (s', None)
    \<and> mset (taskQueue s')
        = mset (updateTask (task_id t)
                  (\<lambda>p. p\<lparr>status := WaitingForSubtasks,
                          subtasks := subtasks p @ [task_id c1, task_id c2]\<rparr>) (taskQueue s))
          + {#c1, c2#}
    \<and> task_id c1 = ''subtask_'' @ uuids 0 \<and> task_id c2 = ''subtask_'' @ uuids 1
    \<and> parentTaskId c1 = Some (task_id t) \<and> parentTaskId c2 = Some (task_id t)
    \<and> status c1 = Pending \<and> status c2 = Pending
    \<and> domainLabel c1 = domainLabel t \<and> domainLabel c2 = domainLabel t
    \<and> complexityScore c1 = of_int \<lceil>complexityScore t / 2\<rceil>
    \<and> complexityScore c2 = of_int \<lfloor>complexityScore t / 2\<rfloor>
    \<and> dependencies c1 = [] \<and> dependencies c2 = []
    \<and> priority c1 = Some (or_opt (priority t) 1 + 1) \<and> priority c2 = priority t"
proof -
  define c1 where "c1 = mkSubtask (agents s) (task_id t) (uuids 0) (splitSpecs t ! 0)"
  define c2 where "c2 = mkSubtask (agents s) (task_id t) (uuids 1) (splitSpecs t ! 1)"
  define q' where "q' = updateTask (task_id t)
                  (\<lambda>p. p\<lparr>status := WaitingForSubtasks,
                          subtasks := subtasks p @ [task_id c1, task_id c2]\<rparr>) (taskQueue s)"
  have ids: "task_id c1 = ''subtask_'' @ uuids 0" "task_id c2 = ''subtask_'' @ uuids 1"
    by (simp_all add: c1_def c2_def mkSubtask_def)
  have "handleTaskSplitting uuids t s = Inr (s\<lparr>taskQueue := sort_by queueOrder (q' @ [c1, c2])\<rparr>)"
    unfolding q'_def ids unfolding c1_def c2_def by (rule handleTaskSplitting_result [OF own])
  then have d: "processQueue_dispatch uuids s
          = Inr (s\<lparr>taskQueue := sort_by queueOrder (q' @ [c1, c2])\<rparr>, None)"
    by (simp add: processQueue_dispatch_def ready agent low strat)
  have m: "mset (taskQueue (s\<lparr>taskQueue := sort_by queueOrder (q' @ [c1, c2])\<rparr>))
             = mset q' + {#c1, c2#}"
    by (simp add: mset_sort_by)
  have fields: "parentTaskId c1 = Some (task_id t) \<and> parentTaskId c2 = Some (task_id t)
    \<and> status c1 = Pending \<and> status c2 = Pending
    \<and> domainLabel c1 = domainLabel t \<and> domainLabel c2 = domainLabel t
    \<and> complexityScore c1 = of_int \<lceil>complexityScore t / 2\<rceil>
    \<and> complexityScore c2 = of_int \<lfloor>complexityScore t / 2\<rfloor>
    \<and> dependencies c1 = [] \<and> dependencies c2 = []
    \<and> priority c1 = Some (or_opt (priority t) 1 + 1) \<and> priority c2 = priority t"
    by (simp add: c1_def c2_def mkSubtask_def splitSpecs_def)
  show ?thesis
    using d m ids fields unfolding q'_def by blast
qed

theorem split_halves_witness:
  "\<exists>s' (c1::task) (c2::task).
      processQueue_dispatch (\<lambda>i. if i = 0 then ''a'' else ''b'')
        (engineAfter scenarioDomains splitSetup) = Inr (s', None)
    \<and> size (mset (taskQueue s')) = 3
    \<and> complexityScore c1 = 5 \<and> complexityScore c2 = 4
    \<and> priority c1 = Some 11 \<and> priority c2 = Some 10"
proof -
  define s where "s = engineAfter scenarioDomains splitSetup"
  define t where "t = hd (taskQueue s)"
  have h1: "find (isReady (taskQueue s)) (taskQueue s) = Some t"
    unfolding s_def t_def by code_simp
  have h2: "findTask (taskQueue s) (task_id t) = Some t"
    unfolding s_def t_def by code_simp
  have h3: "evaluateAssignment s t (failedAgents t) = (Some ''junior-1'', 3 / 10)"
    unfolding s_def t_def by code_simp
  have h4: "''junior-1'' \<noteq> []" by simp
  have h5: "3 / 10 < threshold" by (simp add: threshold_def)
  have h6: "suggestRemediation s t = SPLIT"
    unfolding s_def t_def by code_simp
  have c: "complexityScore t = 9" "priority t = Some 10" "size (mset (taskQueue s)) = 1"
    unfolding s_def t_def by code_simp+
  have ce: "\<lceil>(9::real) / 2\<rceil> = 5" "\<lfloor>(9::real) / 2\<rfloor> = 4" by simp_all
  obtain s' c1 c2 where r:
    "processQueue_dispatch (\<lambda>i. if i = 0 then ''a'' else ''b'') s = Inr (s', None)"
    "mset (taskQueue s')
        = mset (updateTask (task_id t)
                  (\<lambda>p. p\<lparr>status := WaitingForSubtasks,
                          subtasks := subtasks p @ [task_id c1, task_id c2]\<rparr>) (taskQueue s))
          + {#c1, c2#}"
    "complexityScore c1 = of_int \<lceil>complexityScore t / 2\<rceil>"
    "complexityScore c2 = of_int \<lfloor>complexityScore t / 2\<rfloor>"
    "priority c1 = Some (or_opt (priority t) 1 + 1)" "priority c2 = priority t"
    using split_halves [OF h1 h2 h3 h4 h5 h6, of "\<lambda>i. if i = 0 then ''a'' else ''b''"] by blast
  have len: "length (updateTask i f q) = length q" for i f q
    by (induction q) auto
  have "size (mset (taskQueue s'))
          = size (mset (updateTask (task_id t)
                  (\<lambda>p. p\<lparr>status := WaitingForSubtasks,
                          subtasks := subtasks p @ [task_id c1, task_id c2]\<rparr>) (taskQueue s))
          + {#c1, c2#})"
    by (simp only: r(2))
  then have l3: "size (mset (taskQueue s')) = 3"
    using c(3) by (simp add: len)
  have v: "complexityScore c1 = 5" "complexityScore c2 = 4"
          "priority c1 = Some 11" "priority c2 = Some 10"
    using r(3-6) c(1,2) ce by (simp_all add: or_opt_def or_num_def)
  show ?thesis
    using r(1) l3 v unfolding s_def by blast
qed


section \<open>Sub-tasks are not validated\<close>

text \<open>
  C10: \<^verbatim>\<open>handleTaskSplitting\<close> hands its two specifications to \<^verbatim>\<open>decomposeTask\<close>, which
  queues them unvalidated.  Splitting a task of complexity 1 queues a sub-task of complexity
  \<open>\<lfloor>1/2\<rfloor> = 0\<close>, and \<^verbatim>\<open>validateTask\<close> reports that specification's complexity as out of
  range, so \<^verbatim>\<open>submitTask\<close> rejects it.
\<close>

theorem split_bypasses_validation:
  assumes own: "findTask (taskQueue s) (task_id t) = Some t"
    and c: "complexityScore t = 1"
  shows "\<exists>s' child.
      handleTaskSplitting uuids t s = Inr s'
    \<and> child \<in> set (taskQueue s')
    \<and> child = mkSubtask (agents s) (task_id t) (uuids 1) (splitSpecs t ! 1)
    \<and> complexityScore child = 0
    \<and> ComplexityOutOfRange \<in> set (validateTask valid_domains (specData (splitSpecs t ! 1)))
    \<and> submitTask valid_domains uuid (specData (splitSpecs t ! 1)) s
        = Inl (InvalidTask (validateTask valid_domains (specData (splitSpecs t ! 1))))"
proof -
  define child where "child = mkSubtask (agents s) (task_id t) (uuids 1) (splitSpecs t ! 1)"
  have fl: "\<lfloor>(1::real) / 2\<rfloor> = 0" by simp
  have zero: "sp_complexityScore (splitSpecs t ! 1) = 0"
    using c fl by (simp add: splitSpecs_def)
  have cz: "complexityScore child = 0"
    using zero by (simp add: child_def mkSubtask_def)
  have mem: "child \<in> set (taskQueue (s\<lparr>taskQueue := sort_by queueOrder
                  (updateTask (task_id t)
                     (\<lambda>p. p\<lparr>status := WaitingForSubtasks,
                             subtasks := subtasks p @ [''subtask_'' @ uuids 0, ''subtask_'' @ uuids 1]\<rparr>)
                     (taskQueue s)
                   @ [mkSubtask (agents s) (task_id t) (uuids 0) (splitSpecs t ! 0),
                      mkSubtask (agents s) (task_id t) (uuids 1) (splitSpecs t ! 1)])\<rparr>))"
    by (simp add: set_sort_by child_def)
  have bad: "ComplexityOutOfRange \<in> set (validateTask valid_domains (specData (splitSpecs t ! 1)))"
    using zero by (simp add: validateTask_def specData_def)
  then have "validateTask valid_domains (specData (splitSpecs t ! 1)) \<noteq> []" by auto
  then have rej: "submitTask valid_domains uuid (specData (splitSpecs t ! 1)) s
        = Inl (InvalidTask (validateTask valid_domains (specData (splitSpecs t ! 1))))"
    by (simp add: submitTask_def Let_def)
  show ?thesis
    using handleTaskSplitting_result [OF own, of uuids] mem cz bad rej
    unfolding child_def by blast
qed

theorem split_bypasses_validation_witness:
  "\<exists>s' child.
      handleTaskSplitting (\<lambda>i. if i = 0 then ''a'' else ''b'')
        (hd (taskQueue (engineAfter scenarioDomains trivialSetup)))
        (engineAfter scenarioDomains trivialSetup) = Inr s'
    \<and> child \<in> set (taskQueue s')
    \<and> task_id child = ''subtask_b''
    \<and> complexityScore child = 0
    \<and> ComplexityOutOfRange
        \<in> set (validateTask scenarioDomains
                 (specData (splitSpecs (hd (taskQueue (engineAfter scenarioDomains trivialSetup))) ! 1)))"
proof -
  define s where "s = engineAfter scenarioDomains trivialSetup"
  define t where "t = hd (taskQueue s)"
  have h1: "findTask (taskQueue s) (task_id t) = Some t"
    unfolding s_def t_def by code_simp
  have h2: "complexityScore t = 1"
    unfolding s_def t_def by code_simp
  obtain s' child where r:
    "handleTaskSplitting (\<lambda>i. if i = 0 then ''a'' else ''b'') t s = Inr s'"
    "child \<in> set (taskQueue s')"
    "child = mkSubtask (agents s) (task_id t) (if (1::nat) = 0 then ''a'' else ''b'') (splitSpecs t ! 1)"
    "complexityScore child = 0"
    "ComplexityOutOfRange \<in> set (validateTask scenarioDomains (specData (splitSpecs t ! 1)))"
    using split_bypasses_validation [OF h1 h2, of "\<lambda>i. if i = 0 then ''a'' else ''b''" scenarioDomains]
    by blast
  have "task_id child = ''subtask_b''"
    using r(3) by (simp add: mkSubtask_def)
  then show ?thesis
    using r unfolding s_def t_def by blast
qed



section \<open>Reassignment after a low-confidence result\<close>

lemma findAgent_updateAgent:
  "findAgent as i = Some a \<Longrightarrow> agent_id (f a) = i \<Longrightarrow> findAgent (updateAgent i f as) i = Some (f a)"
  by (induction as) (auto simp: findAgent_def split: if_splits)

lemma find_Some_set: "find P xs = Some x \<Longrightarrow> x \<in> set xs \<and> P x"
  by (induction xs) (auto split: if_splits)

lemma findTask_distinct:
  "distinct (map task_id q) \<Longrightarrow> t \<in> set q \<Longrightarrow> findTask q (task_id t) = Some t"
  by (induction q) (auto simp: findTask_def)

lemma evaluateAssignment_available:
  assumes "evaluateAssignment s t excludeIds = (Some b, p)"
  shows "b \<notin> set excludeIds \<and> (\<exists>a \<in> set (agents s). agent_id a = b \<and> agent_status a = Idle)"
proof -
  let ?av = "filter (\<lambda>a. agent_status a = Idle \<and> agent_id a \<notin> set excludeIds) (agents s)"
  let ?ev = "map (\<lambda>a. (agent_id a, predictSuccess (taskQueue s) a t)) ?av"
  from assms obtain best rest where b: "sort_by (\<lambda>a b. snd b - snd a) ?ev = best # rest" "fst best = b"
    by (auto simp: evaluateAssignment_def Let_def split: if_splits list.splits)
  have "best \<in> set (sort_by (\<lambda>a b. snd b - snd a) ?ev)" using b(1) by simp
  then have "best \<in> set ?ev" by (simp only: set_sort_by)
  then obtain a where "a \<in> set ?av" "best = (agent_id a, predictSuccess (taskQueue s) a t)"
    by auto
  then show ?thesis using b(2) by auto
qed

lemma retryOrFail_id [simp]: "task_id (retryOrFail a t) = task_id t"
  by (simp add: retryOrFail_def Let_def)

lemma handleTaskReassignment_result:
  assumes t: "findTask (taskQueue s) taskId = Some t"
    and a: "findAgent (agents s) agentId = Some a"
  shows "findAgent (agents (handleTaskReassignment taskId agentId s)) agentId
           = Some (a\<lparr>agent_status := Idle\<rparr>)"
    and "findTask (taskQueue (handleTaskReassignment taskId agentId s)) taskId
           = Some (retryOrFail agentId t)"
proof -
  have i: "agent_id a = agentId" "task_id t = taskId"
    using a t by (auto simp: findAgent_def findTask_def dest: find_Some_set)
  show "findAgent (agents (handleTaskReassignment taskId agentId s)) agentId
           = Some (a\<lparr>agent_status := Idle\<rparr>)"
    using a i by (simp add: handleTaskReassignment_def setAgentStatus_def Let_def findAgent_updateAgent)
  show "findTask (taskQueue (handleTaskReassignment taskId agentId s)) taskId
           = Some (retryOrFail agentId t)"
    using t i by (simp add: handleTaskReassignment_def setAgentStatus_def Let_def findTask_updateTask)
qed

lemma processQueue_dispatch_Some:
  assumes "processQueue_dispatch uuids s = Inr (s', Some (tid, aid))"
  shows "\<exists>t. find (isReady (taskQueue s)) (taskQueue s) = Some t \<and> task_id t = tid
             \<and> (\<exists>p. evaluateAssignment s t (failedAgents t) = (Some aid, p))"
  using assms
  by (auto simp: processQueue_dispatch_def split: option.splits prod.splits if_splits
      strategy.splits sum.splits)

lemma map_task_id_updateTask:
  "(\<And>t. task_id (f t) = task_id t) \<Longrightarrow> map task_id (updateTask i f q) = map task_id q"
  by (induction q) auto

text \<open>
  C4: when the dispatch of the queued task \<open>t\<close> to the registered agent settles with a result
  whose \<^verbatim>\<open>confidenceScore < 0.6\<close>, the agent is idle again, the agent's id is appended to the
  task's \<^verbatim>\<open>failedAgents\<close> and \<^verbatim>\<open>retryCount\<close> grows by one; below 3 the task is pending
  with \<^verbatim>\<open>assignedTo\<close> cleared, otherwise it is failed; no output is stored; and no later tick
  dispatches the task to an agent in its \<^verbatim>\<open>failedAgents\<close>.
\<close>

theorem low_confidence_reassignment:
  assumes t: "findTask (taskQueue s) taskId = Some t"
    and a: "findAgent (agents s) agentId = Some a"
    and d: "distinct (map task_id (taskQueue s))"
    and low: "js_lt (confidenceScore result) CONFIDENCE_THRESHOLD"
  shows "\<exists>a' t'.
      findAgent (agents (processQueue_settle taskId agentId (Resolved result) s)) agentId = Some a'
    \<and> agent_status a' = Idle
    \<and> findTask (taskQueue (processQueue_settle taskId agentId (Resolved result) s)) taskId = Some t'
    \<and> failedAgents t' = failedAgents t @ [agentId]
    \<and> retryCount t' = retryCount t + 1
    \<and> (if retryCount t' < 3 then status t' = Pending \<and> assignedTo t' = None
        else status t' = Failed)
    \<and> taskOutputs (processQueue_settle taskId agentId (Resolved result) s) = taskOutputs s
    \<and> (\<forall>uuids s2 b. processQueue_dispatch uuids (processQueue_settle taskId agentId (Resolved result) s)
                        = Inr (s2, Some (taskId, b)) \<longrightarrow> b \<notin> set (failedAgents t'))"
proof -
  define s' where "s' = processQueue_settle taskId agentId (Resolved result) s"
  have s': "s' = handleTaskReassignment taskId agentId s"
    using low by (simp add: s'_def processQueue_settle_def)
  have fa: "findAgent (agents s') agentId = Some (a\<lparr>agent_status := Idle\<rparr>)"
    and ft: "findTask (taskQueue s') taskId = Some (retryOrFail agentId t)"
    unfolding s' using handleTaskReassignment_result [OF t a] by simp_all
  have d': "distinct (map task_id (taskQueue s'))"
    using d unfolding s'
    by (simp add: handleTaskReassignment_def setAgentStatus_def Let_def map_task_id_updateTask)
  have out: "taskOutputs s' = taskOutputs s"
    unfolding s' by (simp add: handleTaskReassignment_def setAgentStatus_def Let_def)
  have next': "b \<notin> set (failedAgents (retryOrFail agentId t))"
    if "processQueue_dispatch uuids s' = Inr (s2, Some (taskId, b))" for uuids s2 b
  proof -
    from processQueue_dispatch_Some [OF that] obtain n p where
      n: "find (isReady (taskQueue s')) (taskQueue s') = Some n" "task_id n = taskId"
         "evaluateAssignment s' n (failedAgents n) = (Some b, p)"
      by blast
    have "n \<in> set (taskQueue s')" using n(1) by (simp add: find_Some_set)
    then have "findTask (taskQueue s') (task_id n) = Some n" using d' by (rule findTask_distinct [rotated])
    then have "n = retryOrFail agentId t" using ft n(2) by simp
    then show ?thesis using evaluateAssignment_available [OF n(3)] by simp
  qed
  have fields: "failedAgents (retryOrFail agentId t) = failedAgents t @ [agentId]"
    "retryCount (retryOrFail agentId t) = retryCount t + 1"
    "if retryCount (retryOrFail agentId t) < 3
     then status (retryOrFail agentId t) = Pending \<and> assignedTo (retryOrFail agentId t) = None
     else status (retryOrFail agentId t) = Failed"
    by (simp_all add: retryOrFail_def Let_def)
  show ?thesis
    unfolding s'_def [symmetric]
    using fa ft fields out next' by (intro exI [of _ "a\<lparr>agent_status := Idle\<rparr>"] exI [of _ "retryOrFail agentId t"]) simp
qed


theorem low_confidence_reassignment_witness:
  "\<exists>a' t'.
      findAgent (agents (processQueue_settle ''task_1'' ''analyst'' (Resolved lowConfidence)
                           (engineAfter scenarioDomains scoringSetup))) ''analyst'' = Some a'
    \<and> agent_status a' = Idle
    \<and> findTask (taskQueue (processQueue_settle ''task_1'' ''analyst'' (Resolved lowConfidence)
                              (engineAfter scenarioDomains scoringSetup))) ''task_1'' = Some t'
    \<and> failedAgents t' = [''analyst''] \<and> retryCount t' = 1
    \<and> status t' = Pending \<and> assignedTo t' = None"
proof -
  define s where "s = engineAfter scenarioDomains scoringSetup"
  define t where "t = hd (taskQueue s)"
  define a where "a = hd (agents s)"
  have h1: "findTask (taskQueue s) ''task_1'' = Some t"
    unfolding s_def t_def by code_simp
  have h2: "findAgent (agents s) ''analyst'' = Some a"
    unfolding s_def a_def by code_simp
  have h3: "distinct (map task_id (taskQueue s))"
    unfolding s_def by code_simp
  have h4: "js_lt (confidenceScore lowConfidence) CONFIDENCE_THRESHOLD"
    by (simp add: js_lt_def lowConfidence_def CONFIDENCE_THRESHOLD_def)
  have t0: "failedAgents t = []" "retryCount t = 0"
    unfolding s_def t_def by code_simp+
  show ?thesis
    using low_confidence_reassignment [OF h1 h2 h3 h4] t0 unfolding s_def
    by (auto split: if_splits)
qed

section \<open>Malformed dispatch results\<close>

lemma handleTaskFailure_result:
  assumes t: "findTask (taskQueue s) taskId = Some t"
  shows "findTask (taskQueue (handleTaskFailure taskId agentId s)) taskId
           = Some (retryOrFail agentId t)"
    and "taskOutputs (handleTaskFailure taskId agentId s) = taskOutputs s"
proof -
  have i: "task_id t = taskId"
    using t by (auto simp: findTask_def dest: find_Some_set)
  show "findTask (taskQueue (handleTaskFailure taskId agentId s)) taskId
           = Some (retryOrFail agentId t)"
    using t i
    by (simp add: handleTaskFailure_def setAgentStatus_def updateAgentPerformance_def Let_def
        findTask_updateTask)
  show "taskOutputs (handleTaskFailure taskId agentId s) = taskOutputs s"
    by (simp add: handleTaskFailure_def setAgentStatus_def updateAgentPerformance_def Let_def)
qed

text \<open>
  C3, as stated, fails: the result \<^verbatim>\<open>{confidenceScore: NaN, actualImpact: NaN,
  executionTime: NaN}\<close> passes the test \<^verbatim>\<open>result.confidenceScore < 0.6\<close>, which is false for
  NaN, and is committed: the task is completed with no retry, and an output with confidence
  NaN is stored.
\<close>

theorem nan_result_is_committed:
  "map (\<lambda>t. (task_id t, status t, retryCount t))
     (taskQueue (engineAfter scenarioDomains chaosScenario)) = [(''task_1'', Completed, 0)]
   \<and> map_option o_confidenceScore (taskOutputs (engineAfter scenarioDomains chaosScenario) ''task_1'')
       = Some JNaN"
  by code_simp

text \<open>
  C3, amended: a dispatch that resolves to null or undefined is handled as a failure:
  \<^verbatim>\<open>retryCount\<close> grows by one, the agent joins \<^verbatim>\<open>failedAgents\<close>, the task becomes pending or
  failed, never completed, and no output is stored.
\<close>

theorem nullish_result_is_failure:
  assumes t: "findTask (taskQueue s) taskId = Some t"
  shows "\<exists>t'.
      findTask (taskQueue (processQueue_settle taskId agentId ResolvedNullish s)) taskId = Some t'
    \<and> retryCount t' = retryCount t + 1
    \<and> failedAgents t' = failedAgents t @ [agentId]
    \<and> (status t' = Pending \<or> status t' = Failed)
    \<and> taskOutputs (processQueue_settle taskId agentId ResolvedNullish s) = taskOutputs s"
proof -
  have "status (retryOrFail agentId t) = Pending \<or> status (retryOrFail agentId t) = Failed"
    "retryCount (retryOrFail agentId t) = retryCount t + 1"
    "failedAgents (retryOrFail agentId t) = failedAgents t @ [agentId]"
    by (simp_all add: retryOrFail_def Let_def)
  then show ?thesis
    using handleTaskFailure_result [OF t, of agentId]
    by (simp add: processQueue_settle_def)
qed

theorem nullish_result_is_failure_witness:
  "\<exists>t'.
      findTask (taskQueue (processQueue_settle ''task_1'' ''chaotic_agent'' ResolvedNullish
                             (engineAfter scenarioDomains chaosSetup))) ''task_1'' = Some t'
    \<and> retryCount t' = 1 \<and> status t' = Pending
    \<and> taskOutputs (processQueue_settle ''task_1'' ''chaotic_agent'' ResolvedNullish
                      (engineAfter scenarioDomains chaosSetup)) ''task_1'' = None"
proof -
  define s where "s = engineAfter scenarioDomains chaosSetup"
  define t where "t = hd (taskQueue s)"
  have h1: "findTask (taskQueue s) ''task_1'' = Some t"
    unfolding s_def t_def by code_simp
  have t0: "retryCount t = 0" "taskOutputs s ''task_1'' = None"
    unfolding s_def t_def by code_simp+
  obtain t' where r:
    "findTask (taskQueue (processQueue_settle ''task_1'' ''chaotic_agent'' ResolvedNullish s)) ''task_1'' = Some t'"
    "retryCount t' = retryCount t + 1"
    "status t' = Pending \<or> status t' = Failed"
    "taskOutputs (processQueue_settle ''task_1'' ''chaotic_agent'' ResolvedNullish s) = taskOutputs s"
    using nullish_result_is_failure [OF h1, of "''chaotic_agent''"] by blast
  have "map_option status
          (findTask (taskQueue (processQueue_settle ''task_1'' ''chaotic_agent'' ResolvedNullish s))
             ''task_1'') = Some Pending"
    unfolding s_def by code_simp
  then have "status t' = Pending"
    using r(1) by simp
  then show ?thesis
    using r t0 unfolding s_def by auto
qed



section \<open>Dependency cycles and failed dependencies\<close>

text \<open>A tick that finds no ready task changes nothing.\<close>

lemma processQueue_idle:
  "find (isReady (taskQueue s)) (taskQueue s) = None \<Longrightarrow> processQueue d u s = Inr s"
  by (simp add: processQueue_def processQueue_dispatch_def)

lemma ticks_idle:
  "find (isReady (taskQueue s)) (taskQueue s) = None \<Longrightarrow> ticks d u n s = Inr s"
  by (induction n) (simp_all add: processQueue_idle)

text \<open>
  C1 does not hold of the code: \<^verbatim>\<open>processQueue\<close> has no cycle detection.  In the dependency
  workflow no task is ready, so every tick returns at once: after any number of ticks, with
  any dispatcher, the engine is unchanged and the three tasks of the cycle are pending.
\<close>

theorem cycle_stays_pending:
  "ticks dispatchToAgent uuids n cyclicWorkflow = Inr cyclicWorkflow
   \<and> map (\<lambda>t. (task_id t, status t)) (taskQueue cyclicWorkflow)
       = [(''task_multi_dep'', Pending), (''task_cycle_1'', Pending),
          (''task_cycle_2'', Pending), (''task_cycle_3'', Pending)]"
proof -
  have "find (isReady (taskQueue cyclicWorkflow)) (taskQueue cyclicWorkflow) = None"
    by code_simp
  then have "ticks dispatchToAgent uuids n cyclicWorkflow = Inr cyclicWorkflow"
    by (rule ticks_idle)
  moreover have "map (\<lambda>t. (task_id t, status t)) (taskQueue cyclicWorkflow)
       = [(''task_multi_dep'', Pending), (''task_cycle_1'', Pending),
          (''task_cycle_2'', Pending), (''task_cycle_3'', Pending)]"
    by code_simp
  ultimately show ?thesis by simp
qed

text \<open>
  C2 does not hold of the code: nothing fails the dependents of a failed task.  After the
  third rejection the first task is failed; the task that depends on it is pending, never
  ready, and stays so through any number of ticks.
\<close>

theorem dependent_of_failed_stays_pending:
  "map (\<lambda>t. (task_id t, status t, dependencies t, retryCount t))
     (taskQueue (engineAfter scenarioDomains cascadeScenario))
     = [(''task_2'', Pending, [''task_1''], 0), (''task_1'', Failed, [], 3)]
   \<and> ticks dispatchToAgent uuids n (engineAfter scenarioDomains cascadeScenario)
       = Inr (engineAfter scenarioDomains cascadeScenario)"
proof -
  have "find (isReady (taskQueue (engineAfter scenarioDomains cascadeScenario)))
          (taskQueue (engineAfter scenarioDomains cascadeScenario)) = None"
    by code_simp
  then have "ticks dispatchToAgent uuids n (engineAfter scenarioDomains cascadeScenario)
       = Inr (engineAfter scenarioDomains cascadeScenario)"
    by (rule ticks_idle)
  moreover have "map (\<lambda>t. (task_id t, status t, dependencies t, retryCount t))
     (taskQueue (engineAfter scenarioDomains cascadeScenario))
     = [(''task_2'', Pending, [''task_1''], 0), (''task_1'', Failed, [], 3)]"
    by code_simp
  ultimately show ?thesis by simp
qed



section \<open>Aggregation of sub-task results into the parent\<close>


lemma findTask_id: "findTask q i = Some t \<Longrightarrow> task_id t = i"
  by (auto simp: findTask_def dest: find_Some_set)


















section \<open>Priority order of dispatch\<close>

lemma queueOrder_total: "queueOrder a b \<le> 0 \<or> queueOrder b a \<le> 0"
  by (auto simp: queueOrder_def Let_def)

lemma queueOrder_trans: "queueOrder a b \<le> 0 \<Longrightarrow> queueOrder b c \<le> 0 \<Longrightarrow> queueOrder a c \<le> 0"
  by (auto simp: queueOrder_def Let_def split: if_splits)

lemma queueOrder_priority: "queueOrder a b \<le> 0 \<Longrightarrow> effPriority b \<le> effPriority a"
  by (auto simp: queueOrder_def effPriority_def Let_def split: if_splits)

lemma set_insert_by: "set (insert_by cmp x xs) = insert x (set xs)"
  by (induction xs) auto

lemma sorted_insert_by:
  "sorted_wrt (\<lambda>a b. queueOrder a b \<le> 0) xs
   \<Longrightarrow> sorted_wrt (\<lambda>a b. queueOrder a b \<le> 0) (insert_by queueOrder x xs)"
proof (induction xs)
  case Nil
  then show ?case by simp
next
  case (Cons y ys)
  show ?case
  proof (cases "queueOrder x y \<le> 0")
    case True
    then have "\<forall>z \<in> set ys. queueOrder x z \<le> 0"
      using Cons.prems by (auto intro: queueOrder_trans)
    then show ?thesis using True Cons.prems by simp
  next
    case False
    then have "queueOrder y x \<le> 0" using queueOrder_total [of x y] by simp
    then show ?thesis using False Cons by (auto simp: set_insert_by)
  qed
qed

lemma sorted_sort_by: "sorted_wrt (\<lambda>a b. queueOrder a b \<le> 0) (sort_by queueOrder xs)"
  by (induction xs) (simp_all add: sort_by_def sorted_insert_by)

lemma byPriority_sort_by: "byPriority (sort_by queueOrder xs)"
  unfolding byPriority_def
  by (rule sorted_wrt_mono_rel [OF _ sorted_sort_by]) (simp add: queueOrder_priority)

lemma find_sorted:
  "sorted_wrt R xs \<Longrightarrow> find P xs = Some t \<Longrightarrow> u \<in> set xs \<Longrightarrow> P u \<Longrightarrow> u = t \<or> R t u"
  by (induction xs) (auto split: if_splits)

text \<open>
  C8, as stated, fails: \<^verbatim>\<open>handleTaskCollaboration\<close> raises a priority and nothing sorts the
  queue again.  At the end of the priority scenario both tasks are ready, the first in
  the queue has priority 7 and the second priority 8, and the tick dispatches the first.
\<close>

theorem higher_priority_passed_over:
  "map (\<lambda>t. (task_id t, isReady (taskQueue (engineAfter scenarioDomains priorityScenario)) t, priority t))
     (taskQueue (engineAfter scenarioDomains priorityScenario))
     = [(''task_1'', True, Some 7), (''task_2'', True, Some 8)]
   \<and> (case processQueue_dispatch (\<lambda>i. if i = 0 then ''g'' else ''h'')
               (engineAfter scenarioDomains priorityScenario) of
         Inr (_, d) \<Rightarrow> d
       | Inl _ \<Rightarrow> None) = Some (''task_1'', ''agent-2'')"
  by code_simp

text \<open>
  C8, amended: \<^verbatim>\<open>submitTask\<close> and \<^verbatim>\<open>decomposeTask\<close> leave the queue in descending order of
  priority (absent or 0 counting as 1); and when a tick starts from a queue in that order,
  the task it dispatches is the first ready task and no ready task has a strictly higher
  priority.
\<close>

theorem first_ready_is_top_priority:
  "(submitTask valid_domains uuid td s = Inr (i, s1) \<longrightarrow> byPriority (taskQueue s1))
   \<and> (decomposeTask uuids parentId specs s = Inr (ids, s2) \<longrightarrow> byPriority (taskQueue s2))
   \<and> (byPriority (taskQueue s) \<and> processQueue_dispatch uuids s = Inr (s3, Some (taskId, agentId))
        \<longrightarrow> (\<exists>t. find (isReady (taskQueue s)) (taskQueue s) = Some t
                 \<and> task_id t = taskId
                 \<and> isReady (taskQueue s) t
                 \<and> (\<forall>u \<in> set (taskQueue s).
                       isReady (taskQueue s) u \<longrightarrow> effPriority u \<le> effPriority t)))"
proof (intro conjI impI)
  assume "submitTask valid_domains uuid td s = Inr (i, s1)"
  then show "byPriority (taskQueue s1)"
    by (auto simp: submitTask_def Let_def byPriority_sort_by split: if_splits)
next
  assume "decomposeTask uuids parentId specs s = Inr (ids, s2)"
  then show "byPriority (taskQueue s2)"
    by (auto simp: decomposeTask_def Let_def byPriority_sort_by split: option.splits)
next
  assume a: "byPriority (taskQueue s) \<and> processQueue_dispatch uuids s = Inr (s3, Some (taskId, agentId))"
  then obtain t where t: "find (isReady (taskQueue s)) (taskQueue s) = Some t" "task_id t = taskId"
    using processQueue_dispatch_Some by blast
  have r: "isReady (taskQueue s) t" using t(1) by (simp add: find_Some_set)
  have "effPriority u \<le> effPriority t" if "u \<in> set (taskQueue s)" "isReady (taskQueue s) u" for u
    using find_sorted [OF a [THEN conjunct1, unfolded byPriority_def] t(1) that] by auto
  then show "\<exists>t. find (isReady (taskQueue s)) (taskQueue s) = Some t
                 \<and> task_id t = taskId
                 \<and> isReady (taskQueue s) t
                 \<and> (\<forall>u \<in> set (taskQueue s).
                       isReady (taskQueue s) u \<longrightarrow> effPriority u \<le> effPriority t)"
    using t r by blast
qed

theorem first_ready_is_top_priority_witness:
  "byPriority (taskQueue (snd (projr (submitTask scenarioDomains ''3'' (newTask ''Third'' ''coding'' 5 9)
                                        (engineAfter scenarioDomains prioritySetup)))))
   \<and> byPriority (taskQueue (snd (projr (decomposeTask (\<lambda>i. if i = 0 then ''a'' else ''b'') ''task_1''
                                          (splitSpecs (hd (taskQueue (engineAfter scenarioDomains splitSetup))))
                                          (engineAfter scenarioDomains splitSetup)))))
   \<and> (\<exists>t. find (isReady (taskQueue (engineAfter scenarioDomains prioritySetup)))
              (taskQueue (engineAfter scenarioDomains prioritySetup)) = Some t
          \<and> task_id t = ''task_1''
          \<and> effPriority t = 5
          \<and> list_all (\<lambda>u. effPriority u \<le> effPriority t)
               (filter (isReady (taskQueue (engineAfter scenarioDomains prioritySetup)))
                  (taskQueue (engineAfter scenarioDomains prioritySetup))))"
proof -
  define s where "s = engineAfter scenarioDomains prioritySetup"
  define sub where "sub = submitTask scenarioDomains ''3'' (newTask ''Third'' ''coding'' 5 9) s"
  define sp where "sp = engineAfter scenarioDomains splitSetup"
  define dec where "dec = decomposeTask (\<lambda>i. if i = 0 then ''a'' else ''b'') ''task_1''
                            (splitSpecs (hd (taskQueue sp))) sp"
  define dis where "dis = processQueue_dispatch (\<lambda>i. if i = 0 then ''a'' else ''b'') s"
  have "\<not> isl sub" unfolding sub_def s_def by code_simp
  then have e1: "submitTask scenarioDomains ''3'' (newTask ''Third'' ''coding'' 5 9) s
                   = Inr (fst (projr sub), snd (projr sub))"
    unfolding sub_def by simp
  have "\<not> isl dec" unfolding dec_def sp_def by code_simp
  then have e2: "decomposeTask (\<lambda>i. if i = 0 then ''a'' else ''b'') ''task_1''
                            (splitSpecs (hd (taskQueue sp))) sp
                   = Inr (fst (projr dec), snd (projr dec))"
    unfolding dec_def by simp
  have "\<not> isl dis" "snd (projr dis) = Some (''task_1'', ''agent-1'')"
    unfolding dis_def s_def by code_simp+
  then have e3: "processQueue_dispatch (\<lambda>i. if i = 0 then ''a'' else ''b'') s
                   = Inr (fst (projr dis), Some (''task_1'', ''agent-1''))"
    unfolding dis_def by (metis prod.collapse sum.collapse(2))
  have b: "byPriority (taskQueue s)" unfolding s_def by code_simp
  have w1: "byPriority (taskQueue (snd (projr sub)))"
    using first_ready_is_top_priority
      [of scenarioDomains "''3''" "newTask ''Third'' ''coding'' 5 9" s "fst (projr sub)" "snd (projr sub)"]
      e1 by blast
  have w2: "byPriority (taskQueue (snd (projr dec)))"
    using first_ready_is_top_priority
      [of _ _ _ sp _ _ "\<lambda>i. if i = 0 then ''a'' else ''b''" "''task_1''"
          "splitSpecs (hd (taskQueue sp))" "fst (projr dec)" "snd (projr dec)"]
      e2 by blast
  obtain t where t: "find (isReady (taskQueue s)) (taskQueue s) = Some t" "task_id t = ''task_1''"
      "\<forall>u \<in> set (taskQueue s). isReady (taskQueue s) u \<longrightarrow> effPriority u \<le> effPriority t"
    using first_ready_is_top_priority
      [of _ _ _ s _ _ "\<lambda>i. if i = 0 then ''a'' else ''b''" _ _ _ _ "fst (projr dis)" "''task_1''" "''agent-1''"]
      e3 b by blast
  have "map_option effPriority (find (isReady (taskQueue s)) (taskQueue s)) = Some 5"
    unfolding s_def by code_simp
  then have p: "effPriority t = 5" using t(1) by simp
  have l: "list_all (\<lambda>u. effPriority u \<le> effPriority t) (filter (isReady (taskQueue s)) (taskQueue s))"
    using t(3) by (simp add: list_all_iff)
  show ?thesis
    using w1 w2 t(1,2) p l unfolding s_def sub_def sp_def dec_def by blast
qed

section \<open>The busy agents are the agents of the tasks in process\<close>

lemma procInv_register:
  assumes "procInv P as F" "as b = None" "b \<noteq> AGGREGATOR_SYSTEM"
  shows "procInv P (as(b \<mapsto> Idle)) F"
  using assms unfolding procInv_def by (auto simp: image_iff)

lemma procInv_dispatch:
  assumes "procInv P as F" "as b = Some Idle" "\<forall>x. (i, x) \<notin> P"
  shows "procInv (insert (i, Some b) P) (as(b \<mapsto> Busy)) (insert (i, b) F)"
proof -
  have "as b \<noteq> Some Busy" using assms(2) by simp
  then have nb: "\<And>j. (j, b) \<notin> F"
    using assms(1) unfolding procInv_def by (metis image_eqI snd_conv)
  show ?thesis
    using assms nb unfolding procInv_def
    apply (intro conjI)
    subgoal by auto
    subgoal by auto
    subgoal by (auto simp: image_iff)
    subgoal by auto
    subgoal by auto
    done
qed

lemma procInv_release:
  assumes "procInv P as F" "(i, b) \<in> F"
  shows "procInv (P - {(i, Some b)}) (as(b \<mapsto> Idle)) (F - {(i, b)})"
  using assms unfolding procInv_def
  apply (intro conjI)
  subgoal by auto
  subgoal by auto
  subgoal by (auto simp: image_iff)
  subgoal by auto
  subgoal by (auto simp: image_iff)
  done

lemma proc_upd:
  "proc (ts(i \<mapsto> (st, a, par)))
     = (proc ts - {i} \<times> UNIV) \<union> (if st = Processing then {(i, a)} else {})"
  unfolding proc_def by (auto split: if_splits)

lemma parentsWait_status:
  assumes "parentsWait ts" "ts i = Some (st, a, par)"
    and "st = WaitingForSubtasks \<or> st = Completed \<Longrightarrow> st1 = WaitingForSubtasks \<or> st1 = Completed"
  shows "parentsWait (ts(i \<mapsto> (st1, a1, par)))"
  unfolding parentsWait_def
proof (intro allI impI)
  fix j s2 a2 p assume h: "(ts(i \<mapsto> (st1, a1, par))) j = Some (s2, a2, Some p)"
  have "\<exists>s0 a0. ts j = Some (s0, a0, Some p)"
    using h assms(2) by (cases "j = i") auto
  then obtain a3 p3 where p: "ts p = Some (WaitingForSubtasks, a3, p3) \<or> ts p = Some (Completed, a3, p3)"
    using assms(1) unfolding parentsWait_def by blast
  show "\<exists>a' par'. (ts(i \<mapsto> (st1, a1, par))) p = Some (WaitingForSubtasks, a', par')
                 \<or> (ts(i \<mapsto> (st1, a1, par))) p = Some (Completed, a', par')"
  proof (cases "p = i")
    case True
    then have "st = WaitingForSubtasks \<or> st = Completed" using p assms(2) by auto
    then show ?thesis using True assms(3) by auto
  next
    case False
    then show ?thesis using p by auto
  qed
qed

lemma parentsWait_add:
  assumes "parentsWait ts" "ts i = None"
    and "\<And>p. par = Some p \<Longrightarrow> \<exists>a' par'. ts p = Some (WaitingForSubtasks, a', par')"
  shows "parentsWait (ts(i \<mapsto> (st, a, par)))"
  unfolding parentsWait_def
proof (intro allI impI)
  fix j s1 a1 p assume h: "(ts(i \<mapsto> (st, a, par))) j = Some (s1, a1, Some p)"
  have "\<exists>a2 p2. ts p = Some (WaitingForSubtasks, a2, p2) \<or> ts p = Some (Completed, a2, p2)"
  proof (cases "j = i")
    case True
    then show ?thesis using h assms(3) by auto
  next
    case False
    then show ?thesis using h assms(1) unfolding parentsWait_def by auto
  qed
  moreover then have "p \<noteq> i" using assms(2) by auto
  ultimately show "\<exists>a' par'. (ts(i \<mapsto> (st, a, par))) p = Some (WaitingForSubtasks, a', par')
                 \<or> (ts(i \<mapsto> (st, a, par))) p = Some (Completed, a', par')"
    by simp
qed

lemma parentsWait_completes:
  assumes "parentsWait ts" "completes i ts ts'"
  shows "parentsWait ts'"
  unfolding parentsWait_def
proof (intro allI impI)
  fix j s1 a1 p assume h: "ts' j = Some (s1, a1, Some p)"
  have "\<exists>s0 a0. ts j = Some (s0, a0, Some p)"
    using h assms(2) [unfolded completes_def, rule_format, of j] by (elim disjE exE conjE) simp_all
  then obtain a2 p2 where p: "ts p = Some (WaitingForSubtasks, a2, p2) \<or> ts p = Some (Completed, a2, p2)"
    using assms(1) unfolding parentsWait_def by blast
  show "\<exists>a' par'. ts' p = Some (WaitingForSubtasks, a', par') \<or> ts' p = Some (Completed, a', par')"
    using p assms(2) [unfolded completes_def, rule_format, of p] by auto
qed

lemma proc_completes:
  assumes "completes i ts ts'" "\<forall>a par. ts' i \<noteq> Some (Processing, a, par)"
  shows "proc ts' = proc ts - {i} \<times> UNIV"
proof -
  have "(\<exists>par. ts' j = Some (Processing, a, par)) = (j \<noteq> i \<and> (\<exists>par. ts j = Some (Processing, a, par)))" for j a
    using assms(1) [unfolded completes_def, rule_format, of j] assms(2)
    by (cases "j = i") (elim disjE exE conjE; simp; fail)+
  then show ?thesis unfolding proc_def by auto
qed

lemma completes_refl: "completes i ts ts"
  by (simp add: completes_def)

lemma completes_trans_waiting:
  assumes "completes i ts ts1" "completes k ts1 ts2"
    and "\<exists>a par. ts1 k = Some (WaitingForSubtasks, a, par)"
  shows "completes i ts ts2"
  unfolding completes_def
proof
  fix j
  note a = assms(1) [unfolded completes_def, rule_format, of j]
  note b = assms(2) [unfolded completes_def, rule_format, of j]
  show "ts2 j = ts j
          \<or> (\<exists>st a par. ts j = Some (st, a, par) \<and> ts2 j = Some (Completed, a, par)
                \<and> (j = i \<or> st = WaitingForSubtasks))"
  proof (cases "ts1 j = ts j")
    case True
    show ?thesis
    proof (cases "j = k")
      case True
      then show ?thesis using b assms(3) \<open>ts1 j = ts j\<close> by auto
    next
      case False
      then show ?thesis using b True by auto
    qed
  next
    case False
    then obtain st a par where c: "ts j = Some (st, a, par)" "ts1 j = Some (Completed, a, par)"
      "j = i \<or> st = WaitingForSubtasks"
      using a by auto
    then have "ts2 j = Some (Completed, a, par)" using b by auto
    then show ?thesis using c by auto
  qed
qed

lemma findTask_updateTask_first:
  "findTask q i = Some t \<Longrightarrow> task_id (f t) = i
   \<Longrightarrow> findTask (updateTask i f q) j = (if j = i then Some (f t) else findTask q j)"
  by (induction q) (auto simp: findTask_def split: if_splits)

lemma updateTask_absent: "findTask q i = None \<Longrightarrow> updateTask i f q = q"
  by (induction q) (auto simp: findTask_def split: if_splits)

lemma tview_updateTask:
  "findTask q i = Some t \<Longrightarrow> task_id (f t) = i
   \<Longrightarrow> tview (updateTask i f q) = (tview q)(i \<mapsto> view (f t))"
  by (rule ext) (simp add: tview_def findTask_updateTask_first)

lemma findTask_append:
  "findTask (q @ r) i = (case findTask q i of Some t \<Rightarrow> Some t | None \<Rightarrow> findTask r i)"
  by (induction q) (auto simp: findTask_def)

lemma tview_append:
  assumes "findTask q (task_id t) = None"
  shows "tview (q @ [t]) = (tview q)(task_id t \<mapsto> view t)"
proof (rule ext)
  fix i
  have single: "findTask [t] j = (if task_id t = j then Some t else None)" for j
    by (simp add: findTask_def)
  show "tview (q @ [t]) i = ((tview q)(task_id t \<mapsto> view t)) i"
    using assms by (auto simp: tview_def findTask_append single split: option.splits)
qed

lemma findTask_iff:
  "distinct (map task_id q) \<Longrightarrow> (findTask q i = Some t) = (t \<in> set q \<and> task_id t = i)"
  by (induction q) (auto simp: findTask_def)

lemma findTask_perm:
  assumes "distinct (map task_id q)" "mset q' = mset q"
  shows "findTask q' i = findTask q i"
proof -
  have "mset (map task_id q') = mset (map task_id q)" using assms(2) by simp
  then have d': "distinct (map task_id q')" using assms(1) by (metis mset_eq_imp_distinct_iff)
  have s: "set q' = set q" using assms(2) by (metis set_mset_mset)
  show ?thesis
  proof (cases "findTask q i")
    case None
    then have "\<forall>t \<in> set q. task_id t \<noteq> i" by (auto simp: findTask_def find_None_iff)
    then have "findTask q' i = None" using s by (auto simp: findTask_def find_None_iff)
    then show ?thesis using None by simp
  next
    case (Some t)
    then have "t \<in> set q \<and> task_id t = i" using findTask_iff [OF assms(1)] by simp
    then have "findTask q' i = Some t" using findTask_iff [OF d'] s by simp
    then show ?thesis using Some by simp
  qed
qed

lemma tview_sort_by:
  "distinct (map task_id q) \<Longrightarrow> tview (sort_by cmp q) = tview q"
  by (rule ext) (simp add: tview_def findTask_perm [OF _ mset_sort_by])

lemma distinct_sort_by:
  "distinct (map task_id q) \<Longrightarrow> distinct (map task_id (sort_by cmp q))"
proof -
  have "mset (map task_id (sort_by cmp q)) = mset (map task_id q)" by (simp add: mset_sort_by)
  then show "distinct (map task_id q) \<Longrightarrow> distinct (map task_id (sort_by cmp q))"
    by (metis mset_eq_imp_distinct_iff)
qed

lemma findAgent_updateAgent_first:
  "findAgent A b = Some a \<Longrightarrow> agent_id (f a) = b
   \<Longrightarrow> findAgent (updateAgent b f A) c = (if c = b then Some (f a) else findAgent A c)"
  by (induction A) (auto simp: findAgent_def split: if_splits)

lemma updateAgent_absent: "findAgent A b = None \<Longrightarrow> updateAgent b f A = A"
  by (induction A) (auto simp: findAgent_def split: if_splits)

lemma aview_updateAgent:
  "findAgent A b = Some a \<Longrightarrow> agent_id (f a) = b
   \<Longrightarrow> aview (updateAgent b f A) = (aview A)(b \<mapsto> agent_status (f a))"
  by (rule ext) (simp add: aview_def findAgent_updateAgent_first)

lemma map_agent_id_updateAgent:
  "(\<And>a. agent_id (f a) = agent_id a) \<Longrightarrow> map agent_id (updateAgent b f A) = map agent_id A"
  by (induction A) auto

lemma findAgent_id: "findAgent A b = Some a \<Longrightarrow> agent_id a = b"
  by (auto simp: findAgent_def dest: find_Some_set)

lemma updatePerformance_keeps [simp]:
  "agent_id (updatePerformance su im d a) = agent_id a"
  "agent_status (updatePerformance su im d a) = agent_status a"
  by (simp_all add: updatePerformance_def updateAgentMetadata_def Let_def)

lemma aview_release:
  assumes "findAgent (agents s) b \<noteq> None"
  shows "aview (agents (updateAgentPerformance (setAgentStatus b Idle s) b su im d))
           = (aview (agents s))(b \<mapsto> Idle)"
    and "map agent_id (agents (updateAgentPerformance (setAgentStatus b Idle s) b su im d))
           = map agent_id (agents s)"
proof -
  obtain a where a: "findAgent (agents s) b = Some a" using assms by auto
  have i: "agent_id a = b" using a by (rule findAgent_id)
  have f1: "findAgent (updateAgent b (\<lambda>a. a\<lparr>agent_status := Idle\<rparr>) (agents s)) b
              = Some (a\<lparr>agent_status := Idle\<rparr>)"
    using a i by (simp add: findAgent_updateAgent_first)
  show "aview (agents (updateAgentPerformance (setAgentStatus b Idle s) b su im d))
           = (aview (agents s))(b \<mapsto> Idle)"
  proof -
    have "aview (updateAgent b (updatePerformance su im d)
                   (updateAgent b (\<lambda>a. a\<lparr>agent_status := Idle\<rparr>) (agents s)))
            = (aview (updateAgent b (\<lambda>a. a\<lparr>agent_status := Idle\<rparr>) (agents s)))(b \<mapsto> Idle)"
      using aview_updateAgent [OF f1, of "updatePerformance su im d"] i by simp
    moreover have "aview (updateAgent b (\<lambda>a. a\<lparr>agent_status := Idle\<rparr>) (agents s))
            = (aview (agents s))(b \<mapsto> Idle)"
      using aview_updateAgent [OF a, of "\<lambda>a. a\<lparr>agent_status := Idle\<rparr>"] i by simp
    ultimately show ?thesis
      by (simp add: updateAgentPerformance_def setAgentStatus_def)
  qed
  show "map agent_id (agents (updateAgentPerformance (setAgentStatus b Idle s) b su im d))
           = map agent_id (agents s)"
    by (simp add: updateAgentPerformance_def setAgentStatus_def map_agent_id_updateAgent)
qed

lemma completes_done:
  "completes i ts ts' \<Longrightarrow> ts j = Some (Completed, a, par) \<Longrightarrow> ts' j = Some (Completed, a, par)"
  unfolding completes_def by (erule allE [of _ j]) auto

lemma completes_one:
  "ts i = Some (st, a, par) \<Longrightarrow> completes i ts (ts(i \<mapsto> (Completed, a, par)))"
  unfolding completes_def by auto

lemma commitOutput_effect:
  assumes t: "findTask (taskQueue s) taskId = Some t"
  shows "logEffect taskId agentId s (commitOutput s taskId agentId out t)"
proof -
  let ?c = "commitOutput s taskId agentId out t"
  have i: "task_id t = taskId" using t by (rule findTask_id)
  have q: "taskQueue ?c = updateTask taskId (\<lambda>t. t\<lparr>status := Completed\<rparr>) (taskQueue s)"
    by (simp add: taskQueue_commitOutput markCompleted_def)
  have tv: "tview (taskQueue ?c)
              = (tview (taskQueue s))(taskId \<mapsto> (Completed, assignedTo t, parentTaskId t))"
    unfolding q using tview_updateTask [OF t, of "\<lambda>t. t\<lparr>status := Completed\<rparr>"] i
    by (simp add: view_def)
  have t0: "tview (taskQueue s) taskId = Some (status t, assignedTo t, parentTaskId t)"
    using t by (simp add: tview_def view_def)
  have c1: "completes taskId (tview (taskQueue s)) (tview (taskQueue ?c))"
    unfolding tv using t0 by (rule completes_one)
  have c2: "\<exists>a par. tview (taskQueue ?c) taskId = Some (Completed, a, par)"
    unfolding tv by simp
  have ids: "map task_id (taskQueue ?c) = map task_id (taskQueue s)"
    unfolding q by (simp add: map_task_id_updateTask)
  have ag: "aview (agents ?c) = (if aview (agents s) agentId = None then aview (agents s)
                            else (aview (agents s))(agentId \<mapsto> Idle))
            \<and> map agent_id (agents ?c) = map agent_id (agents s)"
  proof (cases "findAgent (agents s) agentId")
    case None
    then show ?thesis by (simp add: commitOutput_def Let_def aview_def)
  next
    case (Some a)
    let ?s1 = "s\<lparr>taskOutputs := (taskOutputs s)(taskId \<mapsto> outputRecord s taskId agentId out),
                 taskQueue := markCompleted taskId (taskQueue s)\<rparr>"
    have ne: "findAgent (agents ?s1) agentId \<noteq> None" using Some by simp
    have "?c = updateAgentPerformance (setAgentStatus agentId Idle ?s1) agentId True
                (or_zero (actualImpact out)) (domainLabel t)"
      using Some by (simp add: commitOutput_def Let_def)
    then show ?thesis
      using aview_release [OF ne, of True "or_zero (actualImpact out)" "domainLabel t"] Some
      by (simp add: aview_def)
  qed
  show ?thesis unfolding logEffect_def frameIds_def using c1 c2 ids ag by simp
qed

lemma aggInv_logEffect:
  assumes "aggInv s" "logEffect taskId agentId s s'"
  shows "aggInv s'"
proof -
  have "parentsWait (tview (taskQueue s'))"
    using assms unfolding aggInv_def logEffect_def by (auto intro: parentsWait_completes)
  moreover have "aview (agents s') AGGREGATOR_SYSTEM = None"
    using assms unfolding aggInv_def logEffect_def by (auto split: if_splits)
  moreover have "distinct (map task_id (taskQueue s'))"
    using assms unfolding aggInv_def logEffect_def frameIds_def by simp
  ultimately show ?thesis unfolding aggInv_def by simp
qed

lemma logEffect_checkEffect:
  assumes l: "logEffect taskId agentId s c" and k: "checkEffect parentId c s'"
  shows "logEffect taskId agentId s s'"
proof -
  have c1: "completes taskId (tview (taskQueue s)) (tview (taskQueue c))"
    using l unfolding logEffect_def by simp
  obtain a par where d: "tview (taskQueue c) taskId = Some (Completed, a, par)"
    using l unfolding logEffect_def by auto
  have "completes taskId (tview (taskQueue s)) (tview (taskQueue s'))
        \<and> tview (taskQueue s') taskId = Some (Completed, a, par)"
  proof (cases "tview (taskQueue s') = tview (taskQueue c)")
    case True
    then show ?thesis using c1 d by simp
  next
    case False
    then have w: "\<exists>a par. tview (taskQueue c) parentId = Some (WaitingForSubtasks, a, par)"
      and c2: "completes parentId (tview (taskQueue c)) (tview (taskQueue s'))"
      using k unfolding checkEffect_def by auto
    show ?thesis
      using completes_trans_waiting [OF c1 c2 w] completes_done [OF c2 d] by simp
  qed
  moreover have "aview (agents s') = (if aview (agents s) agentId = None then aview (agents s)
                            else (aview (agents s))(agentId \<mapsto> Idle))"
    using l k unfolding logEffect_def checkEffect_def by simp
  moreover have "frameIds s s'"
    using l k unfolding logEffect_def checkEffect_def frameIds_def by simp
  ultimately show ?thesis unfolding logEffect_def by blast
qed

lemma child_parent_waits:
  assumes "aggInv s" "findTask (taskQueue s) parentId = Some parentTask"
    "status parentTask \<noteq> Completed" "children (taskQueue s) parentId \<noteq> []"
  shows "\<exists>a par. tview (taskQueue s) parentId = Some (WaitingForSubtasks, a, par)"
proof -
  obtain ch where ch: "ch \<in> set (taskQueue s)" "parentTaskId ch = Some parentId"
    using assms(4) unfolding children_def by (auto simp: filter_empty_conv)
  have "findTask (taskQueue s) (task_id ch) = Some ch"
    using assms(1) ch(1) unfolding aggInv_def by (simp add: findTask_distinct)
  then have "tview (taskQueue s) (task_id ch) = Some (status ch, assignedTo ch, Some parentId)"
    using ch(2) by (simp add: tview_def view_def)
  then obtain a par where
    "tview (taskQueue s) parentId = Some (WaitingForSubtasks, a, par)
     \<or> tview (taskQueue s) parentId = Some (Completed, a, par)"
    using assms(1) unfolding aggInv_def parentsWait_def by blast
  then show ?thesis
    using assms(2,3) by (auto simp: tview_def view_def)
qed

lemma aggregation_effect:
  "aggInv s \<Longrightarrow> findTask (taskQueue s) taskId \<noteq> None
   \<Longrightarrow> logEffect taskId agentId s (logOutput taskId agentId out s)"
  "aggInv s \<Longrightarrow> checkEffect parentId s (checkAndAggregateParent parentId s)"
proof (induction taskId agentId out s and parentId s rule: logOutput_checkAndAggregateParent.induct)
  case (1 taskId agentId out s)
  then obtain t where t: "findTask (taskQueue s) taskId = Some t" by auto
  note ce = commitOutput_effect [OF t, of agentId out]
  show ?case
  proof (cases "parentTaskId t")
    case None
    then show ?thesis
      using t ce by (simp add: logOutput.simps [of taskId agentId out s])
  next
    case (Some par)
    note par = this
    show ?thesis
    proof (cases par)
      case Nil
      then show ?thesis
        using t par ce by (simp add: logOutput.simps [of taskId agentId out s])
    next
      case (Cons c cs)
      have "aggInv (commitOutput s taskId agentId out t)"
        using aggInv_logEffect [OF 1(2) ce] .
      then have "checkEffect (c # cs) (commitOutput s taskId agentId out t)
                   (checkAndAggregateParent (c # cs) (commitOutput s taskId agentId out t))"
        using 1(1) [OF t par [unfolded Cons]] by simp
      then have "logEffect taskId agentId s
                   (checkAndAggregateParent (c # cs) (commitOutput s taskId agentId out t))"
        using ce by (rule logEffect_checkEffect [rotated])
      then show ?thesis
        using t par Cons by (simp add: logOutput.simps [of taskId agentId out s])
    qed
  qed
next
  case (2 parentId s)
  have same: "checkEffect parentId s s"
    by (simp add: checkEffect_def frameIds_def)
  show ?case
  proof (cases "findTask (taskQueue s) parentId")
    case None
    then show ?thesis using same by (simp add: checkAndAggregateParent.simps [of parentId s])
  next
    case (Some parentTask)
    show ?thesis
    proof (cases "status parentTask = Completed")
      case True
      then show ?thesis
        using Some same by (simp add: checkAndAggregateParent.simps [of parentId s])
    next
      case False
      show ?thesis
      proof (cases "children (taskQueue s) parentId \<noteq> []
                    \<and> list_all (\<lambda>t. status t = Completed) (children (taskQueue s) parentId)")
        case True
        let ?out = "as_output (composeAggregate
                      (List.map_filter (\<lambda>t. taskOutputs s (task_id t)) (children (taskQueue s) parentId))
                      (collaborationSpace s parentId))"
        have l: "logEffect parentId AGGREGATOR_SYSTEM s (logOutput parentId AGGREGATOR_SYSTEM ?out s)"
          using 2(1) [OF Some False refl True 2(2)] Some by simp
        have w: "\<exists>a par. tview (taskQueue s) parentId = Some (WaitingForSubtasks, a, par)"
          using child_parent_waits [OF 2(2) Some False] True by simp
        have "checkEffect parentId s (logOutput parentId AGGREGATOR_SYSTEM ?out s)"
          using l w 2(2) unfolding logEffect_def checkEffect_def aggInv_def by simp
        then show ?thesis
          using Some False True
          by (simp add: checkAndAggregateParent.simps [of parentId s] Let_def)
      next
        case False
        then show ?thesis
          using Some \<open>status parentTask \<noteq> Completed\<close> same
          by (auto simp add: checkAndAggregateParent.simps [of parentId s] Let_def)
      qed
    qed
  qed
qed

lemma proc_fun: "(i, a) \<in> proc ts \<Longrightarrow> (i, b) \<in> proc ts \<Longrightarrow> a = b"
  unfolding proc_def by auto

lemma proc_upd_idle:
  "st \<noteq> Processing \<Longrightarrow> \<forall>a par. ts i \<noteq> Some (Processing, a, par)
   \<Longrightarrow> proc (ts(i \<mapsto> (st, a, par))) = proc ts"
  unfolding proc_def by (auto split: if_splits)

lemma schedInv_aggInv: "schedInv (s, F) \<Longrightarrow> aggInv s"
  unfolding schedInv_def aggInv_def procInv_def by simp

lemma schedInv_inflight:
  assumes "schedInv (s, F)" "(taskId, agentId) \<in> set F"
  shows "\<exists>t. findTask (taskQueue s) taskId = Some t \<and> status t = Processing
             \<and> assignedTo t = Some agentId"
    and "findAgent (agents s) agentId \<noteq> None"
proof -
  have p: "procInv (proc (tview (taskQueue s))) (aview (agents s)) (set F)"
    using assms(1) unfolding schedInv_def by simp
  have "(taskId, Some agentId) \<in> proc (tview (taskQueue s))"
    using p assms(2) unfolding procInv_def by force
  then show "\<exists>t. findTask (taskQueue s) taskId = Some t \<and> status t = Processing
             \<and> assignedTo t = Some agentId"
    unfolding proc_def tview_def view_def by auto
  have "aview (agents s) agentId \<noteq> None"
    using p assms(2) unfolding procInv_def by auto
  then show "findAgent (agents s) agentId \<noteq> None"
    unfolding aview_def by simp
qed

lemma schedInv_release:
  assumes i: "schedInv (s, F)" and f: "(taskId, agentId) \<in> set F"
    and p: "proc (tview (taskQueue s')) = proc (tview (taskQueue s)) - {taskId} \<times> UNIV"
    and w: "parentsWait (tview (taskQueue s'))"
    and a: "aview (agents s') = (aview (agents s))(agentId \<mapsto> Idle)"
    and fr: "frameIds s s'"
  shows "schedInv (s', remove1 (taskId, agentId) F)"
proof -
  have pi: "procInv (proc (tview (taskQueue s))) (aview (agents s)) (set F)"
    and d: "distinct F"
    using i unfolding schedInv_def by simp_all
  have m: "(taskId, Some agentId) \<in> proc (tview (taskQueue s))"
    using pi f unfolding procInv_def by force
  have "proc (tview (taskQueue s)) - {taskId} \<times> UNIV
          = proc (tview (taskQueue s)) - {(taskId, Some agentId)}"
    using proc_fun [OF m] by auto
  then have "procInv (proc (tview (taskQueue s'))) (aview (agents s'))
               (set (remove1 (taskId, agentId) F))"
    using procInv_release [OF pi f] p a d by simp
  then show ?thesis
    using i w fr d unfolding schedInv_def frameIds_def by simp
qed

lemma view_retryOrFail:
  "status t = Processing
   \<Longrightarrow> \<exists>st a. st \<noteq> Processing \<and> view (retryOrFail agentId t) = (st, a, parentTaskId t)"
  by (simp add: retryOrFail_def view_def Let_def)

lemma schedInv_retry:
  assumes i: "schedInv (s, F)" and f: "(taskId, agentId) \<in> set F"
    and q: "taskQueue s' = updateTask taskId (retryOrFail agentId) (taskQueue s)"
    and a: "aview (agents s') = (aview (agents s))(agentId \<mapsto> Idle)"
    and ids: "map agent_id (agents s') = map agent_id (agents s)"
  shows "schedInv (s', remove1 (taskId, agentId) F)"
proof -
  obtain t where t: "findTask (taskQueue s) taskId = Some t" "status t = Processing"
    using schedInv_inflight(1) [OF i f] by auto
  obtain st b where v: "st \<noteq> Processing" "view (retryOrFail agentId t) = (st, b, parentTaskId t)"
    using view_retryOrFail [OF t(2), of agentId] by blast
  have id: "task_id t = taskId" using t(1) by (rule findTask_id)
  have tv: "tview (taskQueue s') = (tview (taskQueue s))(taskId \<mapsto> (st, b, parentTaskId t))"
    unfolding q using tview_updateTask [OF t(1), of "retryOrFail agentId"] id v(2) by simp
  have t0: "tview (taskQueue s) taskId = Some (Processing, assignedTo t, parentTaskId t)"
    using t by (simp add: tview_def view_def)
  have p: "proc (tview (taskQueue s')) = proc (tview (taskQueue s)) - {taskId} \<times> UNIV"
    unfolding tv proc_upd using v(1) by simp
  have "parentsWait (tview (taskQueue s))" using i unfolding schedInv_def by simp
  then have w: "parentsWait (tview (taskQueue s'))"
    unfolding tv using t0 by (rule parentsWait_status) simp
  have fr: "frameIds s s'"
    unfolding frameIds_def q using ids by (simp add: map_task_id_updateTask)
  show ?thesis using i f p w a fr by (rule schedInv_release)
qed

lemma schedInv_failure:
  assumes i: "schedInv (s, F)" and f: "(taskId, agentId) \<in> set F"
  shows "schedInv (handleTaskFailure taskId agentId s, remove1 (taskId, agentId) F)"
proof -
  note ne = schedInv_inflight(2) [OF i f]
  let ?d = "case findTask (taskQueue s) taskId of Some t \<Rightarrow> domainLabel t | None \<Rightarrow> []"
  let ?s1 = "updateAgentPerformance (setAgentStatus agentId Idle s) agentId False 0 ?d"
  have s': "handleTaskFailure taskId agentId s
              = ?s1\<lparr>taskQueue := updateTask taskId (retryOrFail agentId) (taskQueue ?s1)\<rparr>"
    using ne by (simp add: handleTaskFailure_def Let_def)
  have q1: "taskQueue ?s1 = taskQueue s"
    by (simp add: updateAgentPerformance_def setAgentStatus_def)
  show ?thesis
    using i f
  proof (rule schedInv_retry)
    show "taskQueue (handleTaskFailure taskId agentId s)
            = updateTask taskId (retryOrFail agentId) (taskQueue s)"
      unfolding s' using q1 by simp
    show "aview (agents (handleTaskFailure taskId agentId s)) = (aview (agents s))(agentId \<mapsto> Idle)"
      unfolding s' using aview_release(1) [OF ne, of False 0 ?d] by simp
    show "map agent_id (agents (handleTaskFailure taskId agentId s)) = map agent_id (agents s)"
      unfolding s' using aview_release(2) [OF ne, of False 0 ?d] by simp
  qed
qed

lemma schedInv_reassignment:
  assumes i: "schedInv (s, F)" and f: "(taskId, agentId) \<in> set F"
  shows "schedInv (handleTaskReassignment taskId agentId s, remove1 (taskId, agentId) F)"
proof -
  obtain a where a: "findAgent (agents s) agentId = Some a"
    using schedInv_inflight(2) [OF i f] by auto
  have id: "agent_id a = agentId" using a by (rule findAgent_id)
  let ?s1 = "setAgentStatus agentId Idle s"
  have s': "handleTaskReassignment taskId agentId s
              = ?s1\<lparr>taskQueue := updateTask taskId (retryOrFail agentId) (taskQueue ?s1)\<rparr>"
    using a by (simp add: handleTaskReassignment_def Let_def)
  show ?thesis
    using i f
  proof (rule schedInv_retry)
    show "taskQueue (handleTaskReassignment taskId agentId s)
            = updateTask taskId (retryOrFail agentId) (taskQueue s)"
      unfolding s' by (simp add: setAgentStatus_def)
    show "aview (agents (handleTaskReassignment taskId agentId s))
            = (aview (agents s))(agentId \<mapsto> Idle)"
      unfolding s' using aview_updateAgent [OF a, of "\<lambda>a. a\<lparr>agent_status := Idle\<rparr>"] id
      by (simp add: setAgentStatus_def)
    show "map agent_id (agents (handleTaskReassignment taskId agentId s)) = map agent_id (agents s)"
      unfolding s' by (simp add: setAgentStatus_def map_agent_id_updateAgent)
  qed
qed

lemma schedInv_logOutput:
  assumes i: "schedInv (s, F)" and f: "(taskId, agentId) \<in> set F"
  shows "schedInv (logOutput taskId agentId out s, remove1 (taskId, agentId) F)"
proof -
  let ?s' = "logOutput taskId agentId out s"
  have t: "findTask (taskQueue s) taskId \<noteq> None"
    using schedInv_inflight(1) [OF i f] by auto
  have a: "aview (agents s) agentId \<noteq> None"
    using schedInv_inflight(2) [OF i f] by (simp add: aview_def)
  note e = aggregation_effect(1) [OF schedInv_aggInv [OF i] t, of agentId out]
  have c: "completes taskId (tview (taskQueue s)) (tview (taskQueue ?s'))"
    and d: "\<exists>a par. tview (taskQueue ?s') taskId = Some (Completed, a, par)"
    and av: "aview (agents ?s') = (aview (agents s))(agentId \<mapsto> Idle)"
    and fr: "frameIds s ?s'"
    using e a unfolding logEffect_def by simp_all
  have "\<forall>a par. tview (taskQueue ?s') taskId \<noteq> Some (Processing, a, par)"
    using d by auto
  then have p: "proc (tview (taskQueue ?s')) = proc (tview (taskQueue s)) - {taskId} \<times> UNIV"
    using c by (rule proc_completes [rotated])
  have "parentsWait (tview (taskQueue s))" using i unfolding schedInv_def by simp
  then have w: "parentsWait (tview (taskQueue ?s'))"
    using c by (rule parentsWait_completes)
  show ?thesis using i f p w av fr by (rule schedInv_release)
qed

lemma schedInv_settle:
  assumes i: "schedInv (s, F)" and f: "(taskId, agentId) \<in> set F"
  shows "schedInv (processQueue_settle taskId agentId outcome s, remove1 (taskId, agentId) F)"
proof -
  have t: "findTask (taskQueue s) taskId \<noteq> None"
    using schedInv_inflight(1) [OF i f] by auto
  then obtain y where "findTask (taskQueue s) taskId = Some y" by auto
  then show ?thesis
    using schedInv_failure [OF i f] schedInv_reassignment [OF i f] schedInv_logOutput [OF i f]
    by (simp add: processQueue_settle_def Let_def split: dispatch_outcome.splits)
qed

lemma findAgent_distinct:
  "distinct (map agent_id A) \<Longrightarrow> a \<in> set A \<Longrightarrow> findAgent A (agent_id a) = Some a"
  by (induction A) (auto simp: findAgent_def)

lemma schedInv_startProcessing:
  assumes i: "schedInv (s, F)"
    and t: "findTask (taskQueue s) taskId = Some t" "status t = Pending"
    and a: "findAgent (agents s) agentId = Some a" "agent_status a = Idle"
  shows "schedInv (startProcessing taskId agentId p s, F @ [(taskId, agentId)])"
proof -
  let ?s' = "startProcessing taskId agentId p s"
  let ?ts = "tview (taskQueue s)"
  have pi: "procInv (proc ?ts) (aview (agents s)) (set F)"
    and pw: "parentsWait ?ts"
    using i unfolding schedInv_def by simp_all
  have tid: "task_id t = taskId" using t(1) by (rule findTask_id)
  have aid: "agent_id a = agentId" using a(1) by (rule findAgent_id)
  have t0: "?ts taskId = Some (Pending, assignedTo t, parentTaskId t)"
    using t by (simp add: tview_def view_def)
  have tv: "tview (taskQueue ?s') = ?ts(taskId \<mapsto> (Processing, Some agentId, parentTaskId t))"
    using tview_updateTask [OF t(1), of "\<lambda>t. t\<lparr>status := Processing, assignedTo := Some agentId,
                                              predictedSuccess := Some p\<rparr>"] tid
    by (simp add: startProcessing_def view_def)
  have av: "aview (agents ?s') = (aview (agents s))(agentId \<mapsto> Busy)"
    using aview_updateAgent [OF a(1), of "\<lambda>a. a\<lparr>agent_status := Busy\<rparr>"] aid
    by (simp add: startProcessing_def)
  have no: "\<forall>x. (taskId, x) \<notin> proc ?ts"
    using t0 unfolding proc_def by simp
  then have pr: "proc (tview (taskQueue ?s')) = insert (taskId, Some agentId) (proc ?ts)"
    unfolding tv proc_upd by auto
  have idle: "aview (agents s) agentId = Some Idle"
    using a by (simp add: aview_def)
  have new: "(taskId, agentId) \<notin> set F"
    using pi no unfolding procInv_def by force
  have "procInv (proc (tview (taskQueue ?s'))) (aview (agents ?s')) (set (F @ [(taskId, agentId)]))"
    unfolding pr av using procInv_dispatch [OF pi idle no] by simp
  moreover have "parentsWait (tview (taskQueue ?s'))"
    unfolding tv using pw t0 by (rule parentsWait_status) simp
  moreover have "distinct (map task_id (taskQueue ?s'))" "distinct (map agent_id (agents ?s'))"
    using i unfolding schedInv_def
    by (simp_all add: startProcessing_def map_task_id_updateTask map_agent_id_updateAgent)
  moreover have "distinct (F @ [(taskId, agentId)])"
    using i new unfolding schedInv_def by simp
  ultimately show ?thesis unfolding schedInv_def by simp
qed

lemma tview_updateTask_same:
  assumes "\<And>t. view (f t) = view t" "\<And>t. task_id (f t) = task_id t"
  shows "tview (updateTask i f q) = tview q"
proof (cases "findTask q i")
  case None
  then show ?thesis by (simp add: updateTask_absent)
next
  case (Some t)
  have "task_id (f t) = i" using assms(2) [of t] findTask_id [OF Some] by simp
  then have "tview (updateTask i f q) = (tview q)(i \<mapsto> view (f t))"
    using Some by (rule tview_updateTask [rotated])
  moreover have "tview q i = Some (view t)" using Some by (simp add: tview_def)
  ultimately show ?thesis using assms(1) [of t] by (simp add: fun_upd_idem)
qed

lemma schedInv_handleTaskCollaboration:
  assumes "schedInv (s, F)"
  shows "schedInv (handleTaskCollaboration taskId s, F)"
proof -
  have "tview (taskQueue (handleTaskCollaboration taskId s)) = tview (taskQueue s)"
    unfolding handleTaskCollaboration_def by (simp add: tview_updateTask_same view_def)
  moreover have "map task_id (taskQueue (handleTaskCollaboration taskId s)) = map task_id (taskQueue s)"
    unfolding handleTaskCollaboration_def by (simp add: map_task_id_updateTask)
  moreover have "agents (handleTaskCollaboration taskId s) = agents s"
    unfolding handleTaskCollaboration_def by simp
  ultimately show ?thesis using assms unfolding schedInv_def by simp
qed

lemma findTask_None_iff: "(findTask q i = None) = (i \<notin> task_id ` set q)"
  by (auto simp: findTask_def find_None_iff)

lemma schedInv_handleTaskSplitting:
  assumes i: "schedInv (s, F)"
    and t: "findTask (taskQueue s) (task_id t) = Some t" "status t = Pending"
    and u: "uuids 0 \<noteq> uuids 1"
      "findTask (taskQueue s) (''subtask_'' @ uuids 0) = None"
      "findTask (taskQueue s) (''subtask_'' @ uuids 1) = None"
    and r: "handleTaskSplitting uuids t s = Inr s'"
  shows "schedInv (s', F)"
proof -
  let ?f = "\<lambda>p. p\<lparr>status := WaitingForSubtasks,
                    subtasks := subtasks p @ [''subtask_'' @ uuids 0, ''subtask_'' @ uuids 1]\<rparr>"
  let ?c0 = "mkSubtask (agents s) (task_id t) (uuids 0) (splitSpecs t ! 0)"
  let ?c1 = "mkSubtask (agents s) (task_id t) (uuids 1) (splitSpecs t ! 1)"
  let ?q1 = "updateTask (task_id t) ?f (taskQueue s)"
  let ?q2 = "?q1 @ [?c0]"
  let ?q3 = "?q2 @ [?c1]"
  let ?ts = "tview (taskQueue s)"
  let ?ts1 = "?ts(task_id t \<mapsto> (WaitingForSubtasks, assignedTo t, parentTaskId t))"
  let ?ts2 = "?ts1(''subtask_'' @ uuids 0 \<mapsto> (Pending, None, Some (task_id t)))"
  let ?ts3 = "?ts2(''subtask_'' @ uuids 1 \<mapsto> (Pending, None, Some (task_id t)))"
  have s': "s' = s\<lparr>taskQueue := sort_by queueOrder ?q3\<rparr>"
    using r unfolding handleTaskSplitting_result [OF t(1)] by simp
  have ids1: "map task_id ?q1 = map task_id (taskQueue s)"
    by (simp add: map_task_id_updateTask)
  have id0: "task_id ?c0 = ''subtask_'' @ uuids 0" and id1: "task_id ?c1 = ''subtask_'' @ uuids 1"
    by (simp_all add: mkSubtask_def)
  have n0: "''subtask_'' @ uuids 0 \<notin> task_id ` set (taskQueue s)"
    and n1: "''subtask_'' @ uuids 1 \<notin> task_id ` set (taskQueue s)"
    using u(2,3) by (simp_all add: findTask_None_iff)
  have ne: "task_id t \<noteq> ''subtask_'' @ uuids 0" "task_id t \<noteq> ''subtask_'' @ uuids 1"
    using t(1) u(2,3) by auto
  have d3: "distinct (map task_id ?q3)"
  proof -
    have "map task_id ?q3 = map task_id (taskQueue s) @ [''subtask_'' @ uuids 0, ''subtask_'' @ uuids 1]"
      using ids1 id0 id1 by simp
    moreover have "distinct (map task_id (taskQueue s))" using i unfolding schedInv_def by simp
    ultimately show ?thesis using n0 n1 u(1) by simp
  qed
  have t0: "?ts (task_id t) = Some (Pending, assignedTo t, parentTaskId t)"
    using t by (simp add: tview_def view_def)
  have tv1: "tview ?q1 = ?ts1"
    using tview_updateTask [OF t(1), of ?f] by (simp add: view_def)
  have img: "task_id ` set ?q1 = task_id ` set (taskQueue s)"
    using arg_cong [OF ids1, of set] by simp
  have f0: "findTask ?q1 (task_id ?c0) = None"
    unfolding findTask_None_iff id0 img using n0 .
  have tv2: "tview ?q2 = ?ts2"
    using tview_append [OF f0] tv1 id0 by (simp add: view_def mkSubtask_def)
  have "''subtask_'' @ uuids 1 \<notin> task_id ` set ?q2"
    using n1 u(1) id0 img by simp
  then have f1: "findTask ?q2 (task_id ?c1) = None"
    unfolding findTask_None_iff id1 .
  have tv3: "tview ?q3 = ?ts3"
    using tview_append [OF f1] tv2 id1 by (simp add: view_def mkSubtask_def)
  have tv: "tview (taskQueue s') = ?ts3"
    unfolding s' using tview_sort_by [OF d3] tv3 by simp
  have e0: "?ts1 (''subtask_'' @ uuids 0) = None"
    using u(2) ne by (simp add: tview_def)
  have e1: "?ts2 (''subtask_'' @ uuids 1) = None"
    using u(1,3) ne by (simp add: tview_def)
  have pr: "proc ?ts3 = proc ?ts"
    using t0 e0 e1 by (simp add: proc_upd_idle)
  have pw: "parentsWait ?ts" using i unfolding schedInv_def by simp
  have pw1: "parentsWait ?ts1"
    using pw t0 by (rule parentsWait_status) simp
  have pw2: "parentsWait ?ts2"
    using pw1 e0 by (rule parentsWait_add) simp
  have pw3: "parentsWait ?ts3"
    using pw2 e1 by (rule parentsWait_add) (use ne in simp)
  have "distinct (map task_id (taskQueue s'))"
    unfolding s' using distinct_sort_by [OF d3] by simp
  moreover have "agents s' = agents s" unfolding s' by simp
  ultimately show ?thesis
    using i tv pr pw3 unfolding schedInv_def by simp
qed

lemma schedInv_processQueue_dispatch:
  assumes i: "schedInv (s, F)"
    and u: "uuids 0 \<noteq> uuids 1"
      "findTask (taskQueue s) (''subtask_'' @ uuids 0) = None"
      "findTask (taskQueue s) (''subtask_'' @ uuids 1) = None"
    and r: "processQueue_dispatch uuids s = Inr (s', d)"
  shows "schedInv (s', case d of None \<Rightarrow> F | Some x \<Rightarrow> F @ [x])"
proof (cases "find (isReady (taskQueue s)) (taskQueue s)")
  case None
  then show ?thesis using r i by (auto simp: processQueue_dispatch_def)
next
  case (Some t)
  have tq: "t \<in> set (taskQueue s)" and rd: "isReady (taskQueue s) t"
    using find_Some_set [OF Some] by simp_all
  have st: "status t = Pending"
    using rd unfolding isReady_def by (simp split: if_splits)
  have ft: "findTask (taskQueue s) (task_id t) = Some t"
    using i tq unfolding schedInv_def by (simp add: findTask_distinct)
  obtain b p where ev: "evaluateAssignment s t (failedAgents t) = (b, p)"
    by (cases "evaluateAssignment s t (failedAgents t)")
  show ?thesis
  proof (cases b)
    case None
    then show ?thesis using r i Some ev by (auto simp: processQueue_dispatch_def)
  next
    case (Some agentId)
    note b = this
    obtain a where a: "a \<in> set (agents s)" "agent_id a = agentId" "agent_status a = Idle"
      using evaluateAssignment_available [OF ev [unfolded b]] by auto
    have fa: "findAgent (agents s) agentId = Some a"
      using i a(1,2) findAgent_distinct [of "agents s" a] unfolding schedInv_def by simp
    note go = schedInv_startProcessing [OF i ft st fa a(3), of p]
    show ?thesis
    proof (cases "agentId = []")
      case True
      then show ?thesis
        using r i \<open>find (isReady (taskQueue s)) (taskQueue s) = Some t\<close> ev b
        by (auto simp: processQueue_dispatch_def)
    next
      case False
      note ne = this
      show ?thesis
      proof (cases "p < threshold")
        case False
        then show ?thesis
          using r go \<open>find (isReady (taskQueue s)) (taskQueue s) = Some t\<close> ev b ne
          by (auto simp: processQueue_dispatch_def)
      next
        case True
        note low = this
        show ?thesis
        proof (cases "suggestRemediation s t")
          case SPLIT
          then obtain s1 where s1: "handleTaskSplitting uuids t s = Inr s1" "s' = s1" "d = None"
            using r \<open>find (isReady (taskQueue s)) (taskQueue s) = Some t\<close> ev b ne low
            by (auto simp: processQueue_dispatch_def split: sum.splits)
          show ?thesis
            using schedInv_handleTaskSplitting [OF i ft st u s1(1)] s1(2,3) by simp
        next
          case COLLABORATE
          let ?s1 = "handleTaskCollaboration (task_id t) s"
          let ?f = "\<lambda>t. t\<lparr>isCollaborative := True,
                   priority := Some (min (or_opt (priority t) 1 + 2) 10),
                   suggestedAction := Some ''USE_COLLABORATION_PROTOCOL''\<rparr>"
          have i1: "schedInv (?s1, F)" using i by (rule schedInv_handleTaskCollaboration)
          have ft1: "findTask (taskQueue ?s1) (task_id t) = Some (?f t)"
            unfolding handleTaskCollaboration_def using findTask_updateTask [OF ft, of ?f] by simp
          have fa1: "findAgent (agents ?s1) agentId = Some a"
            using fa by (simp add: handleTaskCollaboration_def)
          have "schedInv (startProcessing (task_id t) agentId p ?s1, F @ [(task_id t, agentId)])"
            using i1 ft1 _ fa1 a(3) by (rule schedInv_startProcessing) (simp add: st)
          then show ?thesis
            using r \<open>find (isReady (taskQueue s)) (taskQueue s) = Some t\<close> ev b ne low COLLABORATE
            by (auto simp: processQueue_dispatch_def)
        next
          case REROUTE
          then show ?thesis
            using r i \<open>find (isReady (taskQueue s)) (taskQueue s) = Some t\<close> ev b ne low
            by (auto simp: processQueue_dispatch_def)
        qed
      qed
    qed
  qed
qed

lemma findAgent_None_iff: "(findAgent A b = None) = (b \<notin> agent_id ` set A)"
  by (auto simp: findAgent_def find_None_iff)

lemma setAgent_fresh: "findAgent A (agent_id a) = None \<Longrightarrow> setAgent a A = A @ [a]"
  by (induction A) (auto simp: findAgent_def split: if_splits)

lemma findAgent_append:
  "findAgent (A @ B) b = (case findAgent A b of Some a \<Rightarrow> Some a | None \<Rightarrow> findAgent B b)"
  by (induction A) (auto simp: findAgent_def)

lemma aview_append:
  assumes "findAgent A (agent_id a) = None"
  shows "aview (A @ [a]) = (aview A)(agent_id a \<mapsto> agent_status a)"
proof (rule ext)
  fix b
  have single: "findAgent [a] c = (if agent_id a = c then Some a else None)" for c
    by (simp add: findAgent_def)
  show "aview (A @ [a]) b = ((aview A)(agent_id a \<mapsto> agent_status a)) b"
    using assms by (auto simp: aview_def findAgent_append single split: option.splits)
qed

lemma schedInv_registerAgent:
  assumes i: "schedInv (s, F)"
    and w: "m_id m \<noteq> Value AGGREGATOR_SYSTEM"
    and e: "(case m_id m of Value (c # cs) \<Rightarrow> True | _ \<Rightarrow> False)
            \<or> findAgent (agents s) (''agent_'' @ uuid) = None"
    and r: "registerAgent valid_domains uuid m s = Inr (b, s')"
  shows "schedInv (s', F)"
proof -
  let ?b = "case m_id m of Value (c # cs) \<Rightarrow> c # cs | _ \<Rightarrow> ''agent_'' @ uuid"
  have ok: "validateAgent valid_domains m (agents s) = []"
    using r unfolding registerAgent_def by (simp add: Let_def split: if_splits)
  have "\<exists>a. s' = s\<lparr>agents := setAgent a (agents s)\<rparr> \<and> agent_id a = ?b \<and> agent_status a = Idle"
    using r ok unfolding registerAgent_def Let_def
    apply (simp split: if_splits)
    apply (elim conjE)
    apply (rule exI)
    apply (rule conjI)
     apply (erule sym)
    apply simp
    done
  then obtain a where a: "agent_id a = ?b" "agent_status a = Idle" "s' = s\<lparr>agents := setAgent a (agents s)\<rparr>"
    by auto
  have fresh: "findAgent (agents s) ?b = None"
  proof (cases "m_id m")
    case (Value x)
    show ?thesis
    proof (cases x)
      case Nil
      then show ?thesis using Value e by simp
    next
      case (Cons c cs)
      then show ?thesis
        using Value ok unfolding validateAgent_def by (simp split: if_splits)
    qed
  qed (use e in simp_all)
  have na: "?b \<noteq> AGGREGATOR_SYSTEM"
    using w by (auto simp: AGGREGATOR_SYSTEM_def split: field.splits list.splits)
  have ag: "agents s' = agents s @ [a]"
    using a fresh by (simp add: setAgent_fresh)
  have av: "aview (agents s') = (aview (agents s))(?b \<mapsto> Idle)"
    unfolding ag using aview_append [of "agents s" a] fresh a(1,2) by simp
  have "aview (agents s) ?b = None" using fresh by (simp add: aview_def)
  then have "procInv (proc (tview (taskQueue s))) (aview (agents s')) (set F)"
    unfolding av using i na unfolding schedInv_def by (simp add: procInv_register)
  moreover have "distinct (map agent_id (agents s'))"
    unfolding ag using i fresh a(1) unfolding schedInv_def findAgent_None_iff by simp
  moreover have "taskQueue s' = taskQueue s" using a(3) by simp
  ultimately show ?thesis using i unfolding schedInv_def by simp
qed

lemma schedInv_submitTask:
  assumes i: "schedInv (s, F)"
    and w: "case td_parentTaskId td of Some (c # cs) \<Rightarrow> False | _ \<Rightarrow> True"
    and e: "findTask (taskQueue s) (''task_'' @ uuid) = None"
    and r: "submitTask valid_domains uuid td s = Inr (b, s')"
  shows "schedInv (s', F)"
proof -
  have np: "(case td_parentTaskId td of Some (c # cs) \<Rightarrow> Some (c # cs) | _ \<Rightarrow> None) = None"
    using w by (simp split: option.splits list.splits)
  have "\<exists>t. s' = s\<lparr>taskQueue := sort_by queueOrder (taskQueue s @ [t])\<rparr>
            \<and> task_id t = ''task_'' @ uuid \<and> view t = (Pending, None, None)"
    using r np unfolding submitTask_def Let_def
    apply (simp split: if_splits)
    apply (elim conjE)
    apply (rule exI)
    apply (rule conjI)
     apply (erule sym)
    apply (simp add: view_def)
    done
  then obtain t where t: "task_id t = ''task_'' @ uuid" "view t = (Pending, None, None)"
    "s' = s\<lparr>taskQueue := sort_by queueOrder (taskQueue s @ [t])\<rparr>"
    by auto
  let ?ts = "tview (taskQueue s)"
  have d: "distinct (map task_id (taskQueue s @ [t]))"
    using i e t(1) unfolding schedInv_def findTask_None_iff by simp
  have tv: "tview (taskQueue s') = ?ts(''task_'' @ uuid \<mapsto> (Pending, None, None))"
    using tview_sort_by [OF d] tview_append [of "taskQueue s" t] e t by simp
  have e0: "?ts (''task_'' @ uuid) = None" using e by (simp add: tview_def)
  have pr: "proc (tview (taskQueue s')) = proc ?ts"
    unfolding tv using e0 by (simp add: proc_upd_idle)
  have "parentsWait ?ts" using i unfolding schedInv_def by simp
  then have pw: "parentsWait (tview (taskQueue s'))"
    unfolding tv using e0 by (rule parentsWait_add) simp
  have "distinct (map task_id (taskQueue s'))"
    using distinct_sort_by [OF d] t(3) by simp
  moreover have "agents s' = agents s" using t(3) by simp
  ultimately show ?thesis using i pr pw unfolding schedInv_def by simp
qed

lemma schedInv_fire:
  assumes i: "schedInv sys" and w: "wellBehaved ev" and f: "fire valid_domains ev sys = Some sys'"
  shows "schedInv sys'"
proof -
  obtain s F where sys: "sys = (s, F)" by (cases sys)
  note i' = i [unfolded sys]
  show ?thesis
  proof (cases ev)
    case (Register uuid m)
    have e: "(case m_id m of Value (c # cs) \<Rightarrow> True | _ \<Rightarrow> False)
            \<or> findAgent (agents s) (''agent_'' @ uuid) = None"
      using f unfolding fire_def sys Register
      by (auto split: if_splits field.splits list.splits)
    have w': "m_id m \<noteq> Value AGGREGATOR_SYSTEM" using w Register by (simp add: wellBehaved_def)
    show ?thesis
    proof (cases "registerAgent valid_domains uuid m s")
      case (Inl x)
      then show ?thesis
        using f i' unfolding fire_def sys Register by (auto split: if_splits)
    next
      case (Inr x)
      obtain b s' where x: "x = (b, s')" by (cases x)
      have "sys' = (s', F)"
        using f Inr x unfolding fire_def sys Register by (auto split: if_splits)
      then show ?thesis
        using schedInv_registerAgent [OF i' w' e Inr [unfolded x]] by simp
    qed
  next
    case (Submit uuid td)
    have e: "findTask (taskQueue s) (''task_'' @ uuid) = None"
      using f unfolding fire_def sys Submit by (auto split: if_splits)
    have w': "case td_parentTaskId td of Some (c # cs) \<Rightarrow> False | _ \<Rightarrow> True"
      using w Submit by (simp add: wellBehaved_def)
    show ?thesis
    proof (cases "submitTask valid_domains uuid td s")
      case (Inl x)
      then show ?thesis
        using f i' e unfolding fire_def sys Submit by auto
    next
      case (Inr x)
      obtain b s' where x: "x = (b, s')" by (cases x)
      have "sys' = (s', F)"
        using f Inr x e unfolding fire_def sys Submit by auto
      then show ?thesis
        using schedInv_submitTask [OF i' w' e Inr [unfolded x]] by simp
    qed
  next
    case (Tick u0 u1)
    let ?u = "\<lambda>i::nat. if i = 0 then u0 else u1"
    have e: "?u 0 \<noteq> ?u 1"
      "findTask (taskQueue s) (''subtask_'' @ ?u 0) = None"
      "findTask (taskQueue s) (''subtask_'' @ ?u 1) = None"
      using f unfolding fire_def sys Tick by (auto split: if_splits)
    have en: "\<not> (u0 = u1 \<or> findTask (taskQueue s) (''subtask_'' @ u0) \<noteq> None
                 \<or> findTask (taskQueue s) (''subtask_'' @ u1) \<noteq> None)"
      using e by simp
    show ?thesis
    proof (cases "processQueue_dispatch ?u s")
      case (Inl x)
      then show ?thesis
        using f i' en unfolding fire_def sys Tick by (simp split: if_splits)
    next
      case (Inr x)
      obtain s' d where x: "x = (s', d)" by (cases x)
      have "sys' = (s', case d of None \<Rightarrow> F | Some y \<Rightarrow> F @ [y])"
        using f Inr x en unfolding fire_def sys Tick by (auto split: option.splits)
      then show ?thesis
        using schedInv_processQueue_dispatch [OF i' e Inr [unfolded x]] by simp
    qed
  next
    case (Settle taskId agentId outcome)
    have m: "(taskId, agentId) \<in> set F"
      and s': "sys' = (processQueue_settle taskId agentId outcome s, remove1 (taskId, agentId) F)"
      using f unfolding fire_def sys Settle by (auto split: if_splits)
    show ?thesis unfolding s' using i' m by (rule schedInv_settle)
  qed
qed

lemma schedInv_run:
  "schedInv sys \<Longrightarrow> list_all wellBehaved evs \<Longrightarrow> run valid_domains evs sys = Some sys' \<Longrightarrow> schedInv sys'"
proof (induction evs arbitrary: sys)
  case Nil
  then show ?case by simp
next
  case (Cons e es)
  then obtain sys1 where f: "fire valid_domains e sys = Some sys1"
    and r: "run valid_domains es sys1 = Some sys'"
    by (auto split: option.splits)
  have "schedInv sys1" using Cons.prems(1,2) f by (auto intro: schedInv_fire)
  then show ?case using Cons.IH Cons.prems(2) r by simp
qed

lemma schedInv_emptyEngine: "schedInv (emptyEngine, [])"
  by (simp add: schedInv_def emptyEngine_def procInv_def parentsWait_def proc_def tview_def aview_def
      findTask_def findAgent_def)

lemma schedInv_busyIff:
  assumes "schedInv (s, F)"
  shows "busyIff s"
  unfolding busyIff_def list_all_iff list_ex_iff
proof
  fix a assume a: "a \<in> set (agents s)"
  let ?ts = "tview (taskQueue s)"
  have pi: "procInv (proc ?ts) (aview (agents s)) (set F)"
    and dq: "distinct (map task_id (taskQueue s))"
    and da: "distinct (map agent_id (agents s))"
    using assms unfolding schedInv_def by simp_all
  have "findAgent (agents s) (agent_id a) = Some a"
    using da a by (rule findAgent_distinct)
  then have "(agent_status a = Busy) = (aview (agents s) (agent_id a) = Some Busy)"
    by (simp add: aview_def)
  also have "\<dots> = (agent_id a \<in> snd ` set F)"
    using pi unfolding procInv_def by blast
  also have "\<dots> = (\<exists>i. (i, Some (agent_id a)) \<in> proc ?ts)"
  proof -
    have "proc ?ts = (\<lambda>(i, b). (i, Some b)) ` set F"
      using pi unfolding procInv_def by blast
    then have "(\<exists>i. (i, Some (agent_id a)) \<in> proc ?ts) = (\<exists>i. (i, agent_id a) \<in> set F)"
      by auto
    moreover have "(agent_id a \<in> snd ` set F) = (\<exists>i. (i, agent_id a) \<in> set F)"
      by force
    ultimately show ?thesis by simp
  qed
  also have "\<dots> = (\<exists>t \<in> set (taskQueue s). status t = Processing \<and> assignedTo t = Some (agent_id a))"
  proof
    assume "\<exists>i. (i, Some (agent_id a)) \<in> proc ?ts"
    then obtain i par where "?ts i = Some (Processing, Some (agent_id a), par)"
      unfolding proc_def by auto
    then obtain t where t: "findTask (taskQueue s) i = Some t" "status t = Processing"
      "assignedTo t = Some (agent_id a)"
      unfolding tview_def view_def by auto
    have "t \<in> set (taskQueue s)"
      using t(1) unfolding findTask_def by (simp add: find_Some_set)
    then show "\<exists>t \<in> set (taskQueue s). status t = Processing \<and> assignedTo t = Some (agent_id a)"
      using t(2,3) by blast
  next
    assume "\<exists>t \<in> set (taskQueue s). status t = Processing \<and> assignedTo t = Some (agent_id a)"
    then obtain t where t: "t \<in> set (taskQueue s)" "status t = Processing"
      "assignedTo t = Some (agent_id a)" by auto
    have "findTask (taskQueue s) (task_id t) = Some t" using dq t(1) by (rule findTask_distinct)
    then have "(task_id t, Some (agent_id a)) \<in> proc ?ts"
      using t(2,3) unfolding proc_def tview_def view_def by simp
    then show "\<exists>i. (i, Some (agent_id a)) \<in> proc ?ts" by blast
  qed
  finally show "(agent_status a = Busy)
      = (\<exists>t \<in> set (taskQueue s). status t = Processing \<and> assignedTo t = Some (agent_id a))" .
qed

text \<open>
  C9, as stated, fails.  With two agents, a task and a second task submitted with the first
  as its \<^verbatim>\<open>parentTaskId\<close>, both dispatched, the completion of the second completes the first
  while \<^verbatim>\<open>agent-1\<close> is busy with it: the agent stays busy with no task in process.  With an
  agent registered as \<^verbatim>\<open>AGGREGATOR_SYSTEM\<close> and dispatched on a task, the aggregation of a
  split task sets that agent idle while its task is in process.
\<close>

theorem busy_without_processing_task:
  "map (\<lambda>a. (agent_id a, agent_status a)) (agents (engineAfter scenarioDomains parentLinkScenario))
     = [(''agent-1'', Busy), (''agent-2'', Idle)]
   \<and> map (\<lambda>t. (task_id t, status t, assignedTo t))
         (taskQueue (engineAfter scenarioDomains parentLinkScenario))
     = [(''task_1'', Completed, Some ''agent-1''), (''task_2'', Completed, Some ''agent-2'')]
   \<and> \<not> busyIff (engineAfter scenarioDomains parentLinkScenario)
   \<and> map (\<lambda>a. (agent_id a, agent_status a)) (agents (engineAfter scenarioDomains sentinelScenario))
     = [(''junior-1'', Idle), (''senior-1'', Idle), (''AGGREGATOR_SYSTEM'', Idle)]
   \<and> map (\<lambda>t. (task_id t, status t, assignedTo t))
         (taskQueue (engineAfter scenarioDomains sentinelScenario))
     = [(''subtask_a'', Completed, Some ''senior-1''), (''task_1'', Completed, None),
        (''subtask_b'', Completed, Some ''senior-1''),
        (''task_2'', Processing, Some ''AGGREGATOR_SYSTEM'')]
   \<and> \<not> busyIff (engineAfter scenarioDomains sentinelScenario)"
  by code_simp

text \<open>
  C9, amended: in every state reached from the empty engine by registrations, submissions,
  ticks of the execution loop and settlings of dispatches in flight, in any interleaving,
  where no agent is registered under the id \<^verbatim>\<open>AGGREGATOR_SYSTEM\<close> and no submission carries
  a \<^verbatim>\<open>parentTaskId\<close>, an agent is busy if and only if some task in process is assigned to it.
\<close>

theorem busy_iff_processing:
  assumes "run valid_domains evs (emptyEngine, []) = Some (s, inflight)"
    and "list_all wellBehaved evs"
  shows "busyIff s"
  using schedInv_run [OF schedInv_emptyEngine assms(2,1)] by (rule schedInv_busyIff)

theorem busy_iff_processing_witness:
  "busyIff (engineAfter scenarioDomains (aggregationSetup (4 / 5)))
   \<and> map (\<lambda>a. (agent_id a, agent_status a))
         (agents (engineAfter scenarioDomains (aggregationSetup (4 / 5))))
     = [(''junior-1'', Idle), (''senior-1'', Busy)]"
proof -
  let ?r = "run scenarioDomains (aggregationSetup (4 / 5)) (emptyEngine, [])"
  have "\<not> Option.is_none ?r" by code_simp
  then obtain s inflight where r: "?r = Some (s, inflight)"
    by (cases ?r) (auto simp: Option.is_none_def)
  have w: "list_all wellBehaved (aggregationSetup (4 / 5))" by code_simp
  have "busyIff s" using busy_iff_processing [OF r w] .
  moreover have "engineAfter scenarioDomains (aggregationSetup (4 / 5)) = s"
    using r by (simp add: engineAfter_def)
  moreover have "map (\<lambda>a. (agent_id a, agent_status a))
         (agents (engineAfter scenarioDomains (aggregationSetup (4 / 5))))
     = [(''junior-1'', Idle), (''senior-1'', Busy)]"
    by code_simp
  ultimately show ?thesis by simp
qed

end
